theory Spec2Isabelle
  imports Complex_Main "HOL-Library.Char_ord" "HOL-Library.List_Lexorder"
begin

section \<open>Python values used by the scripts\<close>

subsection \<open>Decimal rendering of integers (\<open>str(n)\<close>, \<open>f"{n}"\<close>)\<close>

definition digit_char :: "nat \<Rightarrow> char" where
  "digit_char d = ''0123456789'' ! d"

fun str_nat :: "nat \<Rightarrow> string" where
  "str_nat n = (if n < 10 then [digit_char n] else str_nat (n div 10) @ [digit_char (n mod 10)])"

declare str_nat.simps [simp del]

definition str_int :: "int \<Rightarrow> string" where
  "str_int i = (if i < 0 then CHR ''-'' # str_nat (nat (- i)) else str_nat (nat i))"

text \<open>Zero padding to a field width, as \<open>strftime\<close> does for \<open>%m\<close>, \<open>%d\<close>, \<open>%H\<close>, \<open>%M\<close>, \<open>%S\<close>.\<close>

definition zfill :: "nat \<Rightarrow> string \<Rightarrow> string" where
  "zfill w s = replicate (w - length s) CHR ''0'' @ s"

subsection \<open>\<open>range(start, stop, step)\<close> with a positive step\<close>

function range_step :: "int \<Rightarrow> int \<Rightarrow> int \<Rightarrow> int list" where
  "range_step a b s = (if 0 < s \<and> a < b then a # range_step (a + s) b s else [])"
  by pat_completeness auto
termination
  by (relation "measure (\<lambda>(a, b, s). nat (b - a))") auto

declare range_step.simps [simp del]

subsection \<open>Truthiness of an optional string (\<open>while url:\<close>)\<close>

fun truthy :: "string option \<Rightarrow> bool" where
  "truthy None = False"
| "truthy (Some s) = (s \<noteq> [])"

subsection \<open>The \<open>datetime\<close> library\<close>

text \<open>
  A \<open>datetime\<close> is modelled by its number of whole seconds since 0001-01-01T00:00:00
  (the scripts never look below the second). The conversions between this number and the
  calendar fields follow CPython's \<open>datetime.py\<close>: \<open>_is_leap\<close>,
  \<open>_days_before_year\<close>, \<open>_days_in_month\<close>, \<open>_days_before_month\<close>,
  \<open>_ymd2ord\<close> and \<open>_ord2ymd\<close>.
\<close>

type_synonym datetime = int

datatype py_error = ValueError | OverflowError | KeyError

definition DT_MAX :: datetime where
  "DT_MAX = 3652059 * 86400 - 1"

definition is_leap :: "int \<Rightarrow> bool" where
  "is_leap year = (year mod 4 = 0 \<and> (year mod 100 \<noteq> 0 \<or> year mod 400 = 0))"

definition days_before_year :: "int \<Rightarrow> int" where
  "days_before_year year = (let y = year - 1 in y * 365 + y div 4 - y div 100 + y div 400)"

definition DAYS_IN_MONTH :: "int list" where
  "DAYS_IN_MONTH = [-1, 31, 28, 31, 30, 31, 30, 31, 31, 30, 31, 30, 31]"

definition DAYS_BEFORE_MONTH :: "int list" where
  "DAYS_BEFORE_MONTH = [-1, 0, 31, 59, 90, 120, 151, 181, 212, 243, 273, 304, 334]"

definition days_in_month :: "int \<Rightarrow> int \<Rightarrow> int" where
  "days_in_month year month =
     (if month = 2 \<and> is_leap year then 29 else DAYS_IN_MONTH ! nat month)"

definition days_before_month :: "int \<Rightarrow> int \<Rightarrow> int" where
  "days_before_month year month =
     DAYS_BEFORE_MONTH ! nat month + (if month > 2 \<and> is_leap year then 1 else 0)"

definition ymd2ord :: "int \<Rightarrow> int \<Rightarrow> int \<Rightarrow> int" where
  "ymd2ord year month day = days_before_year year + days_before_month year month + day"

definition ord2ymd :: "int \<Rightarrow> int \<times> int \<times> int" where
  "ord2ymd ordinal =
     (let n = ordinal - 1;
          n400 = n div 146097; n = n mod 146097;
          year = n400 * 400 + 1;
          n100 = n div 36524; n = n mod 36524;
          n4 = n div 1461; n = n mod 1461;
          n1 = n div 365; n = n mod 365;
          year = year + n100 * 100 + n4 * 4 + n1
      in if n1 = 4 \<or> n100 = 4 then (year - 1, 12, 31)
         else
           (let leapyear = (n1 = 3 \<and> (n4 \<noteq> 24 \<or> n100 = 3));
                month = (n + 50) div 32;
                preceding = DAYS_BEFORE_MONTH ! nat month
                              + (if month > 2 \<and> leapyear then 1 else 0)
            in if preceding > n then
                 (let month = month - 1;
                      preceding = preceding - (DAYS_IN_MONTH ! nat month
                                    + (if month = 2 \<and> leapyear then 1 else 0))
                  in (year, month, n - preceding + 1))
               else (year, month, n - preceding + 1)))"

text \<open>\<open>dt.year\<close>\<close>

definition dt_year :: "datetime \<Rightarrow> int" where
  "dt_year t = fst (ord2ymd (t div 86400 + 1))"

text \<open>
  \<open>dt.strftime("%Y-%m-%dT%H:%M:%SZ")\<close>, every field zero-padded to its width (below the
  year 1000 the padding of \<open>%Y\<close> is the platform's; the scripts format no such year).
\<close>

definition strftime :: "datetime \<Rightarrow> string" where
  "strftime t =
     (case ord2ymd (t div 86400 + 1) of (y, m, d) \<Rightarrow>
        (let s = t mod 86400 in
           zfill 4 (str_int y) @ ''-'' @ zfill 2 (str_int m) @ ''-'' @ zfill 2 (str_int d) @ ''T''
           @ zfill 2 (str_int (s div 3600)) @ '':'' @ zfill 2 (str_int (s mod 3600 div 60)) @ '':''
           @ zfill 2 (str_int (s mod 60)) @ ''Z''))"

text \<open>\<open>timedelta(days=n)\<close> raises \<open>OverflowError\<close> beyond 999999999 days.\<close>

definition timedelta_days :: "int \<Rightarrow> py_error + int" where
  "timedelta_days n = (if \<bar>n\<bar> > 999999999 then Inl OverflowError else Inr (n * 86400))"

text \<open>\<open>dt + delta\<close> raises \<open>OverflowError\<close> when the result leaves years 1..9999.\<close>

definition dt_add :: "datetime \<Rightarrow> int \<Rightarrow> py_error + datetime" where
  "dt_add t delta = (if t + delta < 0 \<or> DT_MAX < t + delta then Inl OverflowError else Inr (t + delta))"

text \<open>\<open>s.replace('Z', '+00:00')\<close>\<close>

definition replace_Z :: "string \<Rightarrow> string" where
  "replace_Z s = concat (map (\<lambda>c. if c = CHR ''Z'' then ''+00:00'' else [c]) s)"

definition digit_val :: "char \<Rightarrow> nat option" where
  "digit_val c = (if 48 \<le> (of_char c :: nat) \<and> (of_char c :: nat) \<le> 57
                  then Some (of_char c - 48) else None)"

fun parse_digits :: "nat \<Rightarrow> string \<Rightarrow> nat option" where
  "parse_digits acc [] = Some acc"
| "parse_digits acc (c # cs) =
     (case digit_val c of None \<Rightarrow> None | Some d \<Rightarrow> parse_digits (10 * acc + d) cs)"

text \<open>
  \<open>datetime.fromisoformat\<close>, restricted to the one shape the scripts hand it,
  \<open>YYYY-MM-DDTHH:MM:SS+00:00\<close>; any other string is reported as \<open>ValueError\<close>
  (CPython accepts a few more ISO 8601 spellings, which the scripts never produce).
\<close>

definition fromisoformat :: "string \<Rightarrow> py_error + datetime" where
  "fromisoformat s =
     (if length s = 25 \<and> s ! 4 = CHR ''-'' \<and> s ! 7 = CHR ''-'' \<and> s ! 10 = CHR ''T''
         \<and> s ! 13 = CHR '':'' \<and> s ! 16 = CHR '':'' \<and> drop 19 s = ''+00:00''
      then
        (case (parse_digits 0 (take 4 s), parse_digits 0 (take 2 (drop 5 s)),
               parse_digits 0 (take 2 (drop 8 s)), parse_digits 0 (take 2 (drop 11 s)),
               parse_digits 0 (take 2 (drop 14 s)), parse_digits 0 (take 2 (drop 17 s))) of
           (Some y, Some m, Some d, Some hh, Some mm, Some ss) \<Rightarrow>
             (if 1 \<le> y \<and> 1 \<le> m \<and> m \<le> 12 \<and> 1 \<le> d
                 \<and> int d \<le> days_in_month (int y) (int m) \<and> hh \<le> 23 \<and> mm \<le> 59 \<and> ss \<le> 59
              then Inr ((ymd2ord (int y) (int m) (int d) - 1) * 86400
                         + int hh * 3600 + int mm * 60 + int ss)
              else Inl ValueError)
         | _ \<Rightarrow> Inl ValueError)
      else Inl ValueError)"


section \<open>Time partitioners\<close>

subsection \<open>\<open>count_events_by_year.generate_time_bins\<close>\<close>

record year_bin =
  yb_label :: string
  yb_start :: int
  yb_end :: int

definition mk_year_bin :: "int \<Rightarrow> int \<Rightarrow> year_bin" where
  "mk_year_bin start_year end_year =
     \<lparr>yb_label = str_int start_year @ ''-'' @ str_int end_year,
      yb_start = start_year, yb_end = end_year\<rparr>"

text \<open>The \<open>while current_year <= end_year_limit\<close> loop with its fixed step of 50 years.\<close>

function by_year_while :: "int \<Rightarrow> int \<Rightarrow> year_bin list \<Rightarrow> year_bin list" where
  "by_year_while current_year end_year_limit bins =
     (if current_year \<le> end_year_limit then
        (let start_year = current_year;
             end_year = current_year + 49;
             end_year = (if end_year > end_year_limit then end_year_limit else end_year)
         in by_year_while (current_year + 50) end_year_limit
              (bins @ [mk_year_bin start_year end_year]))
      else bins)"
  by pat_completeness auto
termination
  by (relation "measure (\<lambda>(c, e, bins). nat (e + 1 - c))") auto

declare by_year_while.simps [simp del]

text \<open>The argument is the value of \<open>datetime.now()\<close>.\<close>

definition by_year_generate_time_bins :: "datetime \<Rightarrow> year_bin list" where
  "by_year_generate_time_bins now =
     (let bins = map (\<lambda>year. mk_year_bin year (year + 99)) (range_step 1600 1800 100);
          end_year_limit = dt_year now
      in by_year_while 1800 end_year_limit bins)"

subsection \<open>\<open>example_5.generate_time_bins\<close>\<close>

record dt_bin =
  db_label :: string
  db_start_datetime :: string
  db_end_datetime :: string

definition mk_dt_bin :: "int \<Rightarrow> int \<Rightarrow> dt_bin" where
  "mk_dt_bin bin_start bin_end =
     \<lparr>db_label = str_int bin_start @ ''-'' @ str_int bin_end,
      db_start_datetime = str_int bin_start @ ''-01-01T00:00:00Z'',
      db_end_datetime = str_int bin_end @ ''-12-31T23:59:59Z''\<rparr>"

text \<open>
  The step is the caller's \<open>interval\<close>; with \<open>interval \<le> 0\<close> the loop never ends,
  which is the value \<open>None\<close>.
\<close>

partial_function (option) example_5_while ::
  "int \<Rightarrow> int \<Rightarrow> int \<Rightarrow> dt_bin list \<Rightarrow> dt_bin list option" where
  "example_5_while current_year end_year interval bins =
     (if current_year \<le> end_year then
        example_5_while (current_year + interval) end_year interval
          (bins @ [mk_dt_bin current_year
                     (if current_year + interval - 1 > end_year then end_year
                      else current_year + interval - 1)])
      else Some bins)"

declare example_5_while.simps [code]

definition example_5_generate_time_bins :: "datetime \<Rightarrow> int \<Rightarrow> int \<Rightarrow> dt_bin list option" where
  "example_5_generate_time_bins now start_year interval =
     example_5_while start_year (dt_year now) interval []"

subsection \<open>\<open>example_3_optimized\<close>: temporal extent and time chunks\<close>

definition START_YEAR_usgs :: int where
  "START_YEAR_usgs = 1934"

definition YEARS_PER_CHUNK :: int where
  "YEARS_PER_CHUNK = 5"

definition get_collection_temporal_extent :: "datetime \<Rightarrow> string \<times> string" where
  "get_collection_temporal_extent now =
     (str_int START_YEAR_usgs @ ''-01-01T00:00:00Z'', strftime now)"

record time_chunk =
  tc_start :: string
  tc_end :: string
  tc_label :: string

definition mk_time_chunk :: "datetime \<Rightarrow> datetime \<Rightarrow> time_chunk" where
  "mk_time_chunk current_start current_end =
     \<lparr>tc_start = strftime current_start, tc_end = strftime current_end,
      tc_label = str_int (dt_year current_start) @ ''-'' @ str_int (dt_year current_end)\<rparr>"

text \<open>
  \<open>while current_start < end_date\<close>. With \<open>years_per_chunk = 0\<close> the loop never ends
  (\<open>None\<close>); with a negative value it runs backwards until the addition overflows.
\<close>

partial_function (option) chunks_while ::
  "datetime \<Rightarrow> datetime \<Rightarrow> int \<Rightarrow> time_chunk list \<Rightarrow> (py_error + time_chunk list) option" where
  "chunks_while current_start end_date years_per_chunk chunks =
     (if current_start < end_date then
        (case timedelta_days (365 * years_per_chunk) of
           Inl e \<Rightarrow> Some (Inl e)
         | Inr delta \<Rightarrow>
             (case dt_add current_start delta of
                Inl e \<Rightarrow> Some (Inl e)
              | Inr t \<Rightarrow>
                  chunks_while (min t end_date) end_date years_per_chunk
                    (chunks @ [mk_time_chunk current_start (min t end_date)])))
      else Some (Inr chunks))"

declare chunks_while.simps [code]

definition generate_time_chunks ::
  "string \<Rightarrow> string \<Rightarrow> int \<Rightarrow> (py_error + time_chunk list) option" where
  "generate_time_chunks start_date_str end_date_str years_per_chunk =
     (case fromisoformat (replace_Z start_date_str) of
        Inl e \<Rightarrow> Some (Inl e)
      | Inr start_date \<Rightarrow>
          (case fromisoformat (replace_Z end_date_str) of
             Inl e \<Rightarrow> Some (Inl e)
           | Inr end_date \<Rightarrow> chunks_while start_date end_date years_per_chunk []))"

text \<open>
  Steps 1 and 2 of \<open>fetch_country_counts_parallel\<close>: the temporal extent, read off the
  clock, and the chunks generated from it.
\<close>

definition plan_time_chunks :: "datetime \<Rightarrow> (py_error + time_chunk list) option" where
  "plan_time_chunks now =
     (case get_collection_temporal_extent now of
        (start_date, end_date) \<Rightarrow> generate_time_chunks start_date end_date YEARS_PER_CHUNK)"

section \<open>The STAC API as the scripts see it\<close>

text \<open>
  A response body holds the keys the scripts read. A key read with
  \<open>data.get(key, default)\<close> is modelled by its value with the default for an absent key;
  \<open>numberMatched\<close> and \<open>summaries["monty:count"]\<close>, which the scripts test for
  presence and for \<open>None\<close>, keep the three cases apart.
\<close>

datatype 'a jfield = Missing | JNull | JVal 'a

record link =
  lk_rel :: "string option"
  lk_href :: "string option"

record feature =
  ft_hazard_codes :: "string list"
  ft_country_codes :: "string list"

record collection_entry =
  ce_id :: "string option"
  ce_roles :: "string list"

record body =
  b_collections :: "collection_entry list"
  b_features :: "feature list"
  b_links :: "link list"
  b_numberMatched :: "int jfield"
  b_monty_count :: "int jfield"

text \<open>
  \<open>session.get(url)\<close> followed by \<open>raise_for_status()\<close> and \<open>json()\<close>: either a
  \<open>RequestException\<close> with its message or the parsed body. A session answers the
  \<open>n\<close>-th request of a task (counted from 0) for a URL; the same URL may fail at one
  request and succeed at the next.
\<close>

datatype response = RequestException string | Ok body

type_synonym session = "nat \<Rightarrow> string \<Rightarrow> response"

text \<open>
  \<open>next((link.get("href") for link in data.get("links", []) if link.get("rel") == "next"), None)\<close>
\<close>

definition next_href :: "body \<Rightarrow> string option" where
  "next_href data =
     (case find (\<lambda>l. lk_rel l = Some ''next'') (b_links data) of
        None \<Rightarrow> None
      | Some l \<Rightarrow> lk_href l)"

subsection \<open>\<open>collections.Counter\<close>\<close>

text \<open>A counter is a dictionary in insertion order: the keys are distinct.\<close>

type_synonym counter = "(string \<times> nat) list"

fun counter_add :: "string \<Rightarrow> nat \<Rightarrow> counter \<Rightarrow> counter" where
  "counter_add k n [] = [(k, n)]"
| "counter_add k n ((k', c) # r) = (if k = k' then (k', c + n) # r else (k', c) # counter_add k n r)"

text \<open>\<open>Counter.update(iterable)\<close> counts every element once.\<close>

definition counter_update :: "string list \<Rightarrow> counter \<Rightarrow> counter" where
  "counter_update codes c = foldl (\<lambda>c k. counter_add k 1 c) c codes"

text \<open>
  \<open>Counter.most_common()\<close> is \<open>sorted(items, key=count, reverse=True)\<close>: a stable sort,
  which with \<open>reverse=True\<close> is reverse, sort ascending, reverse.
\<close>

definition most_common :: "counter \<Rightarrow> (string \<times> nat) list" where
  "most_common c = rev (sort_key snd (rev c))"

subsection \<open>What a fetch task does besides returning\<close>

record error_entry =
  ee_collection :: string
  ee_time_chunk :: string
  ee_page :: nat
  ee_reason :: string

text \<open>
  The URLs requested, the seconds slept (\<open>time.sleep\<close>) and the entries appended to the
  error file (\<open>write_error_entry\<close>), each in order.
\<close>

record effects =
  fx_requested :: "string list"
  fx_slept :: "nat list"
  fx_error_file :: "error_entry list"

definition no_effects :: effects where
  "no_effects = \<lparr>fx_requested = [], fx_slept = [], fx_error_file = []\<rparr>"

definition BASE_URL :: string where
  "BASE_URL = ''https://montandon-eoapi-stage.ifrc.org/stac''"

section \<open>Paginated fetchers\<close>

subsection \<open>\<open>count_events_per_collection.count_items_manually\<close>\<close>

datatype manual_count = Counted nat | Error_during_manual_count

text \<open>
  The loop follows \<open>next\<close> links for as long as the server hands them out: a server whose
  links never end keeps it running, which is the value \<open>None\<close>. \<open>n\<close> is the number of
  requests the task has made so far.
\<close>

partial_function (option) count_items_while ::
  "session \<Rightarrow> nat \<Rightarrow> string option \<Rightarrow> nat \<Rightarrow> manual_count option" where
  "count_items_while sess n url item_count =
     (if truthy url then
        (case sess n (case url of Some u \<Rightarrow> u | None \<Rightarrow> []) of
           RequestException e \<Rightarrow> Some Error_during_manual_count
         | Ok data \<Rightarrow>
             count_items_while sess (Suc n) (next_href data) (item_count + length (b_features data)))
      else Some (Counted item_count))"

declare count_items_while.simps [code]

definition manual_items_url :: "string \<Rightarrow> string" where
  "manual_items_url collection_id = BASE_URL @ ''/collections/'' @ collection_id @ ''/items?limit=250''"

definition count_items_manually :: "session \<Rightarrow> nat \<Rightarrow> string \<Rightarrow> manual_count option" where
  "count_items_manually sess n collection_id =
     count_items_while sess n (Some (manual_items_url collection_id)) 0"

subsection \<open>\<open>example_3_optimized.fetch_time_chunk\<close>\<close>

definition BASE_URL_collections :: string where
  "BASE_URL_collections = ''https://montandon-eoapi-stage.ifrc.org/stac/collections''"

definition PAGE_SIZE :: nat where
  "PAGE_SIZE = 500"

definition max_retries :: nat where
  "max_retries = 3"

text \<open>
  \<open>for attempt in range(max_retries)\<close>: the page fetched (\<open>break\<close>), the retries
  exhausted (\<open>return\<close>), or the \<open>for\<close> running out without either.
\<close>

datatype attempts = Fetched body nat effects | Exhausted string nat effects | Ran_out nat effects

fun retry_for :: "session \<Rightarrow> string \<Rightarrow> nat \<Rightarrow> nat list \<Rightarrow> effects \<Rightarrow> attempts" where
  "retry_for sess url n [] fx = Ran_out n fx"
| "retry_for sess url n (attempt # rest) fx =
     (case sess n url of
        Ok data \<Rightarrow> Fetched data (Suc n) (fx\<lparr>fx_requested := fx_requested fx @ [url]\<rparr>)
      | RequestException ex \<Rightarrow>
          (let fx = fx\<lparr>fx_requested := fx_requested fx @ [url],
                       fx_slept := fx_slept fx @ [2 ^ attempt]\<rparr>
           in if attempt = max_retries - 1 then Exhausted ex (Suc n) fx
              else retry_for sess url (Suc n) rest fx))"

record chunk_result =
  cr_counter :: counter
  cr_error :: "error_entry option"
  cr_total_items :: nat
  cr_page_count :: nat
  cr_effects :: effects

definition count_country_codes :: "feature list \<Rightarrow> counter \<Rightarrow> counter" where
  "count_country_codes features c = foldl (\<lambda>c f. counter_update (ft_country_codes f) c) c features"

definition failure_entry :: "string \<Rightarrow> string \<Rightarrow> nat \<Rightarrow> string \<Rightarrow> error_entry" where
  "failure_entry collection_id chunk_label page_count ex =
     \<lparr>ee_collection = collection_id, ee_time_chunk = chunk_label, ee_page = page_count,
      ee_reason = ''Failed after '' @ str_int (int max_retries) @ '' attempts: '' @ ex\<rparr>"

partial_function (option) fetch_time_chunk_while ::
  "session \<Rightarrow> string \<Rightarrow> string \<Rightarrow> string option \<Rightarrow> nat \<Rightarrow> nat \<Rightarrow> counter \<Rightarrow> nat \<Rightarrow> effects
   \<Rightarrow> chunk_result option" where
  "fetch_time_chunk_while sess collection_id chunk_label url page_count total_items chunk_counter n fx =
     (if truthy url then
        (case retry_for sess (case url of Some u \<Rightarrow> u | None \<Rightarrow> []) n [0..<max_retries] fx of
           Fetched data n' fx' \<Rightarrow>
             fetch_time_chunk_while sess collection_id chunk_label (next_href data) (Suc page_count)
               (total_items + length (b_features data))
               (count_country_codes (b_features data) chunk_counter) n' fx'
         | Exhausted ex n' fx' \<Rightarrow>
             Some \<lparr>cr_counter = chunk_counter,
                   cr_error = Some (failure_entry collection_id chunk_label (Suc page_count) ex),
                   cr_total_items = total_items, cr_page_count = Suc page_count,
                   cr_effects = fx'\<lparr>fx_error_file := fx_error_file fx'
                      @ [failure_entry collection_id chunk_label (Suc page_count) ex]\<rparr>\<rparr>
         | Ran_out n' fx' \<Rightarrow>
             fetch_time_chunk_while sess collection_id chunk_label url (Suc page_count)
               total_items chunk_counter n' fx')
      else Some \<lparr>cr_counter = chunk_counter, cr_error = None, cr_total_items = total_items,
                  cr_page_count = page_count, cr_effects = fx\<rparr>)"

declare fetch_time_chunk_while.simps [code]

definition time_chunk_url :: "string \<Rightarrow> time_chunk \<Rightarrow> string" where
  "time_chunk_url collection_id time_chunk =
     BASE_URL_collections @ ''/'' @ collection_id @ ''/items?limit='' @ str_int (int PAGE_SIZE)
     @ ''&datetime='' @ tc_start time_chunk @ ''/'' @ tc_end time_chunk
     @ ''&fields=properties.monty:country_codes''"

definition fetch_time_chunk :: "session \<Rightarrow> string \<Rightarrow> time_chunk \<Rightarrow> chunk_result option" where
  "fetch_time_chunk sess collection_id time_chunk =
     fetch_time_chunk_while sess collection_id (tc_label time_chunk)
       (Some (time_chunk_url collection_id time_chunk)) 0 0 [] 0 no_effects"

subsection \<open>\<open>example_5.fetch_counts_for_bin\<close>\<close>

record bin_result =
  br_collection :: string
  br_label :: string
  br_counts :: counter
  br_items_fetched :: nat
  br_effects :: effects

definition count_hazard_codes :: "feature list \<Rightarrow> counter \<Rightarrow> counter" where
  "count_hazard_codes features c = foldl (\<lambda>c f. counter_update (ft_hazard_codes f) c) c features"

partial_function (option) fetch_counts_while ::
  "session \<Rightarrow> string \<Rightarrow> string \<Rightarrow> string option \<Rightarrow> nat \<Rightarrow> counter \<Rightarrow> nat \<Rightarrow> effects
   \<Rightarrow> bin_result option" where
  "fetch_counts_while sess collection_id bin_label url items_fetched hazard_counter n fx =
     (if truthy url then
        (case sess n (case url of Some u \<Rightarrow> u | None \<Rightarrow> []) of
           Ok data \<Rightarrow>
             (if b_features data = [] \<and> items_fetched = 0 then
                Some \<lparr>br_collection = collection_id, br_label = bin_label, br_counts = [],
                      br_items_fetched = items_fetched,
                      br_effects = fx\<lparr>fx_requested := fx_requested fx
                         @ [case url of Some u \<Rightarrow> u | None \<Rightarrow> []]\<rparr>\<rparr>
              else
                fetch_counts_while sess collection_id bin_label (next_href data)
                  (items_fetched + length (b_features data))
                  (count_hazard_codes (b_features data) hazard_counter) (Suc n)
                  (fx\<lparr>fx_requested := fx_requested fx @ [case url of Some u \<Rightarrow> u | None \<Rightarrow> []]\<rparr>))
         | RequestException e \<Rightarrow>
             Some \<lparr>br_collection = collection_id, br_label = bin_label, br_counts = [],
                   br_items_fetched = items_fetched,
                   br_effects = fx\<lparr>fx_requested := fx_requested fx
                      @ [case url of Some u \<Rightarrow> u | None \<Rightarrow> []]\<rparr>\<rparr>)
      else Some \<lparr>br_collection = collection_id, br_label = bin_label, br_counts = hazard_counter,
                  br_items_fetched = items_fetched, br_effects = fx\<rparr>)"

declare fetch_counts_while.simps [code]

definition hazard_items_url :: "string \<Rightarrow> dt_bin \<Rightarrow> string" where
  "hazard_items_url collection_id time_bin =
     BASE_URL @ ''/collections/'' @ collection_id @ ''/items''
     @ ''?limit=250&datetime='' @ db_start_datetime time_bin @ ''/'' @ db_end_datetime time_bin
     @ ''&fields=properties.monty:hazard_codes''"

definition fetch_counts_for_bin :: "session \<Rightarrow> string \<Rightarrow> dt_bin \<Rightarrow> bin_result option" where
  "fetch_counts_for_bin sess collection_id time_bin =
     fetch_counts_while sess collection_id (db_label time_bin)
       (Some (hazard_items_url collection_id time_bin)) 0 [] 0 no_effects"


section \<open>Count mode\<close>

subsection \<open>\<open>count_events_by_year.fetch_count_for_bin\<close>\<close>

text \<open>The \<open>event_count\<close> of a row: a number, or the string \<open>"Error"\<close>.\<close>

datatype event_count = Count int | Error_count

record count_row =
  row_collection :: string
  row_time_period :: string
  row_event_count :: event_count

text \<open>What the task returns, the URLs it requested and the lines it printed.\<close>

record count_task =
  ct_row :: count_row
  ct_requested :: "string list"
  ct_printed :: "string list"

definition count_items_url :: "string \<Rightarrow> year_bin \<Rightarrow> string" where
  "count_items_url collection_id time_bin =
     BASE_URL @ ''/collections/'' @ collection_id @ ''/items?limit=1&datetime=''
     @ str_int (yb_start time_bin) @ ''-01-01T00:00:00Z'' @ ''/''
     @ str_int (yb_end time_bin) @ ''-12-31T23:59:59Z''"

definition warning_no_numberMatched :: "string \<Rightarrow> string \<Rightarrow> string" where
  "warning_no_numberMatched collection_id bin_label =
     ''  -> WARNING: '' @ [CHR 0x27] @ ''numberMatched'' @ [CHR 0x27] @ '' not found for ''
     @ collection_id @ '' in '' @ bin_label @ ''. Count is 0.''"

definition fetch_count_for_bin :: "session \<Rightarrow> string \<Rightarrow> year_bin \<Rightarrow> count_task" where
  "fetch_count_for_bin sess collection_id time_bin =
     (let bin_label = yb_label time_bin;
          url = count_items_url collection_id time_bin;
          querying = ''  -> Querying: '' @ collection_id @ '' for period '' @ bin_label
      in case sess 0 url of
           Ok data \<Rightarrow>
             (let missing = (case b_numberMatched data of JVal c \<Rightarrow> False | _ \<Rightarrow> True);
                  count = (case b_numberMatched data of JVal c \<Rightarrow> c | _ \<Rightarrow> 0)
              in \<lparr>ct_row = \<lparr>row_collection = collection_id, row_time_period = bin_label,
                             row_event_count = Count count\<rparr>,
                    ct_requested = [url],
                    ct_printed = [querying]
                      @ (if missing then [warning_no_numberMatched collection_id bin_label] else [])
                      @ [''  -> Completed: '' @ collection_id @ '' for '' @ bin_label @ '' (''
                         @ str_int count @ '' items)'']\<rparr>)
         | RequestException e \<Rightarrow>
             \<lparr>ct_row = \<lparr>row_collection = collection_id, row_time_period = bin_label,
                          row_event_count = Error_count\<rparr>,
              ct_requested = [url],
              ct_printed = [querying,
                 ''  -> ERROR on '' @ collection_id @ '' for '' @ bin_label @ '': '' @ e]\<rparr>)"

subsection \<open>\<open>count_events_per_collection.fetch_collection_count\<close>\<close>

text \<open>
  \<open>total_events\<close>: a count from the summary or from \<open>numberMatched\<close> (which may be
  \<open>null\<close>), the outcome of the manual count, or the string \<open>"Error"\<close>.
\<close>

datatype total_events = Total_count int | Total_None | Manual manual_count | Error_total

record collection_count =
  cc_collection_id :: string
  cc_total_events :: total_events

definition collection_url :: "string \<Rightarrow> string" where
  "collection_url collection_id = BASE_URL @ ''/collections/'' @ collection_id"

definition items_limit1_url :: "string \<Rightarrow> string" where
  "items_limit1_url collection_id = BASE_URL @ ''/collections/'' @ collection_id @ ''/items?limit=1''"

text \<open>
  The three methods in the order of the docstring: the summary's \<open>monty:count\<close>, then
  \<open>numberMatched\<close> of a \<open>limit=1\<close> query, then the manual count over all pages, which
  need not end.
\<close>

definition fetch_collection_count :: "session \<Rightarrow> string \<Rightarrow> collection_count option" where
  "fetch_collection_count sess collection_id =
     (case sess 0 (collection_url collection_id) of
        RequestException e \<Rightarrow>
          Some \<lparr>cc_collection_id = collection_id, cc_total_events = Error_total\<rparr>
      | Ok data \<Rightarrow>
          (case b_monty_count data of
             JVal item_count \<Rightarrow>
               Some \<lparr>cc_collection_id = collection_id, cc_total_events = Total_count item_count\<rparr>
           | _ \<Rightarrow>
               (case sess 1 (items_limit1_url collection_id) of
                  RequestException e \<Rightarrow>
                    Some \<lparr>cc_collection_id = collection_id, cc_total_events = Error_total\<rparr>
                | Ok data \<Rightarrow>
                    (case b_numberMatched data of
                       JVal item_count \<Rightarrow>
                         Some \<lparr>cc_collection_id = collection_id, cc_total_events = Total_count item_count\<rparr>
                     | JNull \<Rightarrow>
                         Some \<lparr>cc_collection_id = collection_id, cc_total_events = Total_None\<rparr>
                     | Missing \<Rightarrow>
                         map_option
                           (\<lambda>manual_count. \<lparr>cc_collection_id = collection_id,
                                               cc_total_events = Manual manual_count\<rparr>)
                           (count_items_manually sess 2 collection_id)))))"

section \<open>Exporters\<close>

text \<open>
  \<open>sorted(df_long['time_period'].unique())\<close>: the distinct labels seen in the results,
  sorted as strings (code point order, which is the lexicographic order on \<open>char list\<close>).
\<close>

definition sorted_unique :: "string list \<Rightarrow> string list" where
  "sorted_unique col = sort (remdups col)"

subsection \<open>\<open>example_3_optimized.main\<close>: the CSV\<close>

text \<open>
  A row as handed to \<open>csv.writer.writerow\<close>, which writes each cell with \<open>str\<close>. The
  block under \<open># Save to CSV\<close> writes the file only for a non-empty counter; \<open>None\<close> is
  no file.
\<close>

datatype csv_cell = Text string | Number nat

definition save_to_csv :: "counter \<Rightarrow> csv_cell list list option" where
  "save_to_csv country_counts =
     (if country_counts \<noteq> [] then
        Some ([Text ''country_code'', Text ''event_count'']
              # map (\<lambda>(country, count). [Text country, Number count]) (most_common country_counts))
      else None)"

subsection \<open>The pivoted workbooks\<close>

text \<open>
  A sheet as \<open>DataFrame.to_excel\<close> writes it: the \<open>sheet_name\<close> it is handed, the
  column headers, the row labels (none when \<open>index=False\<close>) and the cells, row by row.
  \<open>pivot_table\<close> aggregates the values of a cell with its default \<open>mean\<close>, sorts the row
  labels and the columns, and fills a cell without values with the fill value 0;
  \<open>reindex(columns=..., fill_value=0)\<close> then lays the columns out in the given order,
  again with 0 for a column that was absent.
\<close>

record sheet =
  sh_name :: string
  sh_index :: "string list"
  sh_columns :: "string list"
  sh_cells :: "real list list"

text \<open>
  What the \<open>with pd.ExcelWriter(OUTPUT_FILE, engine='openpyxl')\<close> block leaves behind.

  \<^item> \<open>No_file\<close>: \<open>main\<close> returned before the block.
  \<^item> \<open>Workbook sheets\<close>: the workbook, with every sheet under the \<open>sheet_name\<close> asked for.
  \<^item> \<open>Writer_failed\<close>: the block wrote no sheet; on closing, openpyxl refuses to save a
    workbook without a sheet and \<open>main\<close> ends with its \<open>IndexError\<close>.
  \<^item> \<open>Invalid_title\<close>: openpyxl accepts no sheet title with one of the characters
    \<open>\ * ? : / [ ]\<close>; \<open>to_excel\<close> raises \<open>ValueError\<close> at the first such \<open>sheet_name\<close>
    and \<open>main\<close> ends with it.
  \<^item> \<open>Title_clash\<close>: a \<open>sheet_name\<close> equals, up to the case of its letters, an earlier
    one or the title \<open>Sheet\<close> that openpyxl gives a new sheet. openpyxl may then file the
    sheet under another title (\<open>a-events\<close> after \<open>A-events\<close> becomes \<open>a-events1\<close>),
    and pandas writes a frame whose \<open>sheet_name\<close> is already a title into that sheet.
    What the workbook holds in this case is not described. The same holds for a
    \<open>sheet_name\<close> outside ASCII, where the case of a letter is Unicode's.
\<close>

datatype written = No_file | Workbook "sheet list" | Writer_failed | Invalid_title | Title_clash

text \<open>openpyxl's \<open>INVALID_TITLE_REGEX\<close>, \<open>[\\*?:/\[\]]\<close>.\<close>

definition INVALID_TITLE_CHARS :: string where
  "INVALID_TITLE_CHARS = [CHR 0x5C, CHR ''*'', CHR ''?'', CHR '':'', CHR ''/'', CHR ''['', CHR '']'']"

definition invalid_title :: "string \<Rightarrow> bool" where
  "invalid_title title = list_ex (\<lambda>c. c \<in> set INVALID_TITLE_CHARS) title"

text \<open>\<open>str.lower()\<close> on ASCII.\<close>

definition lower_char :: "char \<Rightarrow> char" where
  "lower_char c =
     (case map_of (zip ''ABCDEFGHIJKLMNOPQRSTUVWXYZ'' ''abcdefghijklmnopqrstuvwxyz'') c of
        Some l \<Rightarrow> l
      | None \<Rightarrow> c)"

definition lower :: "string \<Rightarrow> string" where
  "lower s = map lower_char s"

definition ascii :: "string \<Rightarrow> bool" where
  "ascii s = list_all (\<lambda>c. (of_char c :: nat) < 128) s"

text \<open>
  Titles that openpyxl keeps as they are asked for: plain ASCII, pairwise different up to
  case, and none equal to \<open>Sheet\<close> up to case.
\<close>

definition titles_kept :: "string list \<Rightarrow> bool" where
  "titles_kept titles \<longleftrightarrow>
     list_all (\<lambda>t. ascii t \<and> lower t \<noteq> ''sheet'') titles \<and> distinct (map lower titles)"

text \<open>The \<open>to_excel\<close> calls of the block, one per sheet and in this order, and its end.\<close>

definition write_sheets :: "sheet list \<Rightarrow> written" where
  "write_sheets sheets =
     (if sheets = [] then Writer_failed
      else if list_ex (\<lambda>s. invalid_title (sh_name s)) sheets then Invalid_title
      else if titles_kept (map sh_name sheets) then Workbook sheets
      else Title_clash)"

text \<open>\<open>Series.unique()\<close>: the distinct values in the order of their first appearance.\<close>

definition unique :: "'a list \<Rightarrow> 'a list" where
  "unique xs = rev (remdups (rev xs))"

definition pivot_cell :: "int list \<Rightarrow> real" where
  "pivot_cell values = (if values = [] then 0 else real_of_int (sum_list values) / real (length values))"

subsubsection \<open>\<open>count_events_by_year.main\<close>, from \<open>df_long = pd.DataFrame(all_results)\<close> on\<close>

definition count_of :: "count_row \<Rightarrow> int" where
  "count_of r = (case row_event_count r of Count c \<Rightarrow> c | Error_count \<Rightarrow> 0)"

definition by_year_sheet :: "count_row list \<Rightarrow> string list \<Rightarrow> string \<Rightarrow> sheet" where
  "by_year_sheet df_long all_time_periods collection =
     (let df_collection = filter (\<lambda>r. row_collection r = collection) df_long
      in \<lparr>sh_name = collection, sh_index = [], sh_columns = all_time_periods,
          sh_cells = [map (\<lambda>period. pivot_cell (map count_of
                             (filter (\<lambda>r. row_time_period r = period) df_collection)))
                        all_time_periods]\<rparr>)"

text \<open>
  The guard \<open>if not all_results\<close> comes before the rows marked \<open>"Error"\<close> are filtered
  out: when every row is so marked, the block is entered with no collection at all.
\<close>

definition by_year_export :: "count_row list \<Rightarrow> written" where
  "by_year_export all_results =
     (if all_results = [] then No_file
      else
        (let df_long = filter (\<lambda>r. row_event_count r \<noteq> Error_count) all_results;
             collections = sorted_unique (map row_collection df_long);
             all_time_periods = sorted_unique (map row_time_period df_long)
         in write_sheets (map (by_year_sheet df_long all_time_periods) collections)))"

subsubsection \<open>\<open>example_5.main\<close>, from \<open>df_long = pd.DataFrame(all_results)\<close> on\<close>

record hazard_row =
  hz_collection :: string
  hz_time_period :: string
  hz_hazard_code :: string
  hz_event_count :: nat

definition example_5_sheet :: "hazard_row list \<Rightarrow> string list \<Rightarrow> string \<Rightarrow> sheet" where
  "example_5_sheet df_long time_period_order collection =
     (let df_collection = filter (\<lambda>r. hz_collection r = collection) df_long;
          hazard_codes = sorted_unique (map hz_hazard_code df_collection)
      in \<lparr>sh_name = collection, sh_index = hazard_codes, sh_columns = time_period_order,
          sh_cells = map (\<lambda>code. map (\<lambda>period. pivot_cell (map (\<lambda>r. int (hz_event_count r))
                             (filter (\<lambda>r. hz_hazard_code r = code \<and> hz_time_period r = period)
                                df_collection)))
                           time_period_order)
                       hazard_codes\<rparr>)"

definition example_5_export :: "hazard_row list \<Rightarrow> written" where
  "example_5_export all_results =
     (if all_results = [] then No_file
      else
        (let df_long = all_results;
             time_period_order = sorted_unique (map hz_time_period df_long);
             collections = unique (map hz_collection df_long)
         in write_sheets (map (example_5_sheet df_long time_period_order) collections)))"

section \<open>The runs\<close>

text \<open>
  A run of a \<open>main\<close>: the tasks it constructed, whether it started the worker pool, the
  results it collected and what it wrote. \<open>as_completed\<close> yields the futures in the order
  in which they finish, which the model takes as the list \<open>completed\<close> of task numbers
  (each below the number of tasks, every task once).
  Every task of a run talks to the shared session; the session's answer to a request
  depends on the URL and on how many requests the task has made before.
\<close>

record ('t, 'r) run =
  run_tasks :: "'t list"
  run_pool_started :: bool
  run_results :: "'r list"
  run_output :: written

definition aborted :: "('t, 'r) run" where
  "aborted = \<lparr>run_tasks = [], run_pool_started = False, run_results = [], run_output = No_file\<rparr>"

text \<open>\<open>[collection["id"] for collection in ...]\<close>: a collection without \<open>id\<close> is a \<open>KeyError\<close>.\<close>

fun ids_of :: "collection_entry list \<Rightarrow> py_error + string list" where
  "ids_of [] = Inr []"
| "ids_of (c # cs) =
     (case ce_id c of
        None \<Rightarrow> Inl KeyError
      | Some i \<Rightarrow> (case ids_of cs of Inl e \<Rightarrow> Inl e | Inr r \<Rightarrow> Inr (i # r)))"

definition all_tasks :: "string list \<Rightarrow> 'b list \<Rightarrow> (string \<times> 'b) list" where
  "all_tasks collections time_bins =
     concat (map (\<lambda>collection_id. map (\<lambda>bin_info. (collection_id, bin_info)) time_bins) collections)"

subsection \<open>\<open>count_events_by_year\<close>\<close>

definition get_event_collections :: "session \<Rightarrow> py_error + string list" where
  "get_event_collections sess =
     (case sess 0 (BASE_URL @ ''/collections'') of
        RequestException e \<Rightarrow> Inr []
      | Ok data \<Rightarrow> ids_of (filter (\<lambda>collection. ''event'' \<in> set (ce_roles collection))
                            (b_collections data)))"

definition by_year_main ::
  "session \<Rightarrow> datetime \<Rightarrow> nat list \<Rightarrow> py_error + (string \<times> year_bin, count_row) run" where
  "by_year_main sess now completed =
     (case get_event_collections sess of
        Inl e \<Rightarrow> Inl e
      | Inr event_collections \<Rightarrow>
          if event_collections = [] then Inr aborted
          else
            (let time_bins = by_year_generate_time_bins now;
                 tasks = all_tasks event_collections time_bins;
                 all_results = map (\<lambda>i. ct_row (fetch_count_for_bin sess (fst (tasks ! i))
                                                   (snd (tasks ! i)))) completed
             in Inr \<lparr>run_tasks = tasks, run_pool_started = True, run_results = all_results,
                     run_output = by_year_export all_results\<rparr>))"

subsection \<open>\<open>example_5\<close>\<close>

text \<open>\<open>sub in s\<close> for strings.\<close>

definition py_in :: "string \<Rightarrow> string \<Rightarrow> bool" where
  "py_in sub s = list_ex (\<lambda>i. take (length sub) (drop i s) = sub) [0..<Suc (length s)]"

text \<open>
  The listing is paged; the first request carries \<open>params = {"limit": 100}\<close>. A failed
  request on any page gives the empty list; a listing whose \<open>next\<close> links never end keeps
  the loop running (\<open>None\<close>).
\<close>

partial_function (option) listing_while ::
  "session \<Rightarrow> nat \<Rightarrow> string option \<Rightarrow> collection_entry list \<Rightarrow> collection_entry list option option"
  where
  "listing_while sess n url all_collections =
     (if truthy url then
        (case sess n (case url of Some u \<Rightarrow> u | None \<Rightarrow> []) of
           RequestException e \<Rightarrow> Some None
         | Ok data \<Rightarrow>
             listing_while sess (Suc n) (next_href data) (all_collections @ b_collections data))
      else Some (Some all_collections))"

declare listing_while.simps [code]

definition get_hazard_collections :: "session \<Rightarrow> string list option" where
  "get_hazard_collections sess =
     (case listing_while sess 0 (Some (BASE_URL @ ''/collections?limit=100'')) [] of
        None \<Rightarrow> None
      | Some None \<Rightarrow> Some []
      | Some (Some all_collections) \<Rightarrow>
          Some (filter (py_in ''-events'')
                  (map (\<lambda>collection. case ce_id collection of Some i \<Rightarrow> i | None \<Rightarrow> ''unknown'')
                     all_collections)))"

definition START_YEAR :: int where
  "START_YEAR = 1800"

definition INTERVAL_YEARS :: int where
  "INTERVAL_YEARS = 50"

text \<open>The rows a finished task adds to \<open>all_results\<close>: one per hazard code counted.\<close>

definition rows_of :: "bin_result \<Rightarrow> hazard_row list" where
  "rows_of r =
     map (\<lambda>(hazard_code, count).
            \<lparr>hz_collection = br_collection r, hz_time_period = br_label r,
             hz_hazard_code = hazard_code, hz_event_count = count\<rparr>)
       (br_counts r)"

definition example_5_main ::
  "session \<Rightarrow> datetime \<Rightarrow> nat list \<Rightarrow> (string \<times> dt_bin, hazard_row) run option" where
  "example_5_main sess now completed =
     (case get_hazard_collections sess of
        None \<Rightarrow> None
      | Some hazard_collections \<Rightarrow>
          if hazard_collections = [] then Some aborted
          else
            (case example_5_generate_time_bins now START_YEAR INTERVAL_YEARS of
               None \<Rightarrow> None
             | Some time_bins \<Rightarrow>
                 (let tasks = all_tasks hazard_collections time_bins
                  in case those (map (\<lambda>i. fetch_counts_for_bin sess (fst (tasks ! i))
                                             (snd (tasks ! i))) completed) of
                       None \<Rightarrow> None
                     | Some finished \<Rightarrow>
                         (let all_results = concat (map rows_of finished)
                          in Some \<lparr>run_tasks = tasks, run_pool_started = True,
                                   run_results = all_results,
                                   run_output = example_5_export all_results\<rparr>))))"

subsection \<open>\<open>count_events_per_collection\<close>\<close>

definition get_all_collections :: "session \<Rightarrow> py_error + string list" where
  "get_all_collections sess =
     (case sess 0 (BASE_URL @ ''/collections'') of
        RequestException e \<Rightarrow> Inr []
      | Ok data \<Rightarrow> ids_of (b_collections data))"

text \<open>This script writes no file; its results are the table it prints, sorted by collection.\<close>

definition per_collection_main ::
  "session \<Rightarrow> nat list \<Rightarrow> (py_error + (string, collection_count) run) option" where
  "per_collection_main sess completed =
     (case get_all_collections sess of
        Inl e \<Rightarrow> Some (Inl e)
      | Inr collection_ids \<Rightarrow>
          if collection_ids = [] then Some (Inr aborted)
          else
            (case those (map (\<lambda>i. fetch_collection_count sess (collection_ids ! i)) completed) of
               None \<Rightarrow> None
             | Some results \<Rightarrow>
                 Some (Inr \<lparr>run_tasks = collection_ids, run_pool_started = True,
                            run_results = sort_key cc_collection_id results,
                            run_output = No_file\<rparr>)))"

section \<open>Notions the properties are stated with\<close>

subsection \<open>What a partition is\<close>

text \<open>
  \<open>tiles s e spans\<close>: the half-open spans \<open>[a, b)\<close>, in list order, are non-empty, each
  starts where the one before ends, the first starts at \<open>s\<close> and the last ends at \<open>e\<close>;
  no span at all is the partition of an empty range. A bin of whole years \<open>a..b\<close> is the
  span \<open>[a, b + 1)\<close>.
\<close>

fun tiles :: "int \<Rightarrow> int \<Rightarrow> (int \<times> int) list \<Rightarrow> bool" where
  "tiles s e [] = (e \<le> s)"
| "tiles s e ((a, b) # r) = (a = s \<and> a < b \<and> b \<le> e \<and> tiles b e r)"

text \<open>
  The bins as the scripts use them, \<open>datetime=start/end\<close> with both ends included.

  \<open>year_ranges s e ranges\<close>: the ranges of whole years \<open>a..b\<close>, in list order: none is
  empty, each starts in the year after the one before ends, no two have a year in
  common, together they are exactly the years \<open>s..e\<close>, and the first starts at \<open>s\<close> and
  the last ends at \<open>e\<close>; there is no range at all exactly when \<open>e < s\<close>.
\<close>

definition year_ranges :: "int \<Rightarrow> int \<Rightarrow> (int \<times> int) list \<Rightarrow> bool" where
  "year_ranges s e ranges \<longleftrightarrow>
     (\<forall>p\<in>set ranges. fst p \<le> snd p)
     \<and> (\<forall>i. Suc i < length ranges \<longrightarrow> fst (ranges ! Suc i) = snd (ranges ! i) + 1)
     \<and> (\<forall>i j. i < j \<and> j < length ranges \<longrightarrow>
            {fst (ranges ! i)..snd (ranges ! i)} \<inter> {fst (ranges ! j)..snd (ranges ! j)} = {})
     \<and> (\<Union>(a, b)\<in>set ranges. {a..b}) = {s..e}
     \<and> (ranges = [] \<longleftrightarrow> e < s)
     \<and> (ranges \<noteq> [] \<longrightarrow> fst (hd ranges) = s \<and> snd (last ranges) = e)"

text \<open>
  \<open>chained s e spans\<close>: the spans of seconds \<open>a..b\<close>, in list order: each has \<open>a < b\<close>
  and starts at the second at which the one before ends, so that two consecutive spans
  have exactly that second in common and two others none; together they are exactly
  the seconds \<open>s..e\<close>, the first starts at \<open>s\<close> and the last ends at \<open>e\<close>; there is no
  span at all exactly when \<open>e \<le> s\<close>.
\<close>

definition chained :: "int \<Rightarrow> int \<Rightarrow> (int \<times> int) list \<Rightarrow> bool" where
  "chained s e spans \<longleftrightarrow>
     (\<forall>p\<in>set spans. fst p < snd p)
     \<and> (\<forall>i. Suc i < length spans \<longrightarrow> fst (spans ! Suc i) = snd (spans ! i))
     \<and> (\<forall>i j. i < j \<and> j < length spans \<longrightarrow>
            {fst (spans ! i)..snd (spans ! i)} \<inter> {fst (spans ! j)..snd (spans ! j)}
              = (if j = Suc i then {snd (spans ! i)} else {}))
     \<and> (spans = [] \<longleftrightarrow> e \<le> s)
     \<and> (spans \<noteq> [] \<longrightarrow>
            (\<Union>(a, b)\<in>set spans. {a..b}) = {s..e} \<and> fst (hd spans) = s \<and> snd (last spans) = e)"

definition yb_span :: "year_bin \<Rightarrow> int \<times> int" where
  "yb_span b = (yb_start b, yb_end b + 1)"

text \<open>A span back as the bin or chunk the partitioner builds from it.\<close>

definition dt_span_bin :: "int \<times> int \<Rightarrow> dt_bin" where
  "dt_span_bin p = mk_dt_bin (fst p) (snd p - 1)"

definition span_chunk :: "int \<times> int \<Rightarrow> time_chunk" where
  "span_chunk p = mk_time_chunk (fst p) (snd p)"

subsection \<open>Labels and the exporters' column order\<close>

text \<open>A label of the form \<open>start-end\<close> with two four-digit years, \<open>start \<le> end\<close>.\<close>

definition four_digit_year_label :: "string \<Rightarrow> int \<Rightarrow> int \<Rightarrow> bool" where
  "four_digit_year_label l a e \<longleftrightarrow>
     l = str_int a @ ''-'' @ str_int e
     \<and> length (str_int a) = 4 \<and> length (str_int e) = 4
     \<and> set (str_int a) \<subseteq> set ''0123456789'' \<and> set (str_int e) \<subseteq> set ''0123456789''
     \<and> a \<le> e"

text \<open>
  \<open>chronological_labels spans ls\<close>: \<open>ls\<close> are the labels of the year spans \<open>spans\<close>
  (a bin of the years \<open>a..e\<close> is the span \<open>(a, e + 1)\<close>), one each and in the same order;
  every label has the four-digit form; the spans are in chronological order; the labels
  increase strictly as strings; and so the string sort of any column of these labels
  lists them in the order of the bins.
\<close>

definition chronological_labels :: "(int \<times> int) list \<Rightarrow> string list \<Rightarrow> bool" where
  "chronological_labels spans ls \<longleftrightarrow>
     length ls = length spans
     \<and> (\<forall>i<length spans. four_digit_year_label (ls ! i) (fst (spans ! i)) (snd (spans ! i) - 1))
     \<and> sorted_wrt (\<lambda>p q. snd p \<le> fst q) spans
     \<and> sorted_wrt (<) ls
     \<and> (\<forall>col. set col \<subseteq> set ls \<longrightarrow> sorted_unique col = filter (\<lambda>l. l \<in> set col) ls)"

subsection \<open>Chains of pages\<close>

definition is_next :: "link \<Rightarrow> bool" where
  "is_next l = (lk_rel l = Some ''next'')"

definition items_on :: "body list \<Rightarrow> nat" where
  "items_on pages = sum_list (map (\<lambda>p. length (b_features p)) pages)"

text \<open>
  \<open>page_chain sess n url pages\<close>: from its \<open>n\<close>-th request on, the session serves the
  finite chain \<open>pages\<close> starting at \<open>url\<close>: each request succeeds with the next page of
  the list, every page but the last carries a \<open>next\<close> link with a non-empty \<open>href\<close>,
  which is the URL of the page after it, and the last page has no \<open>next\<close> link.
\<close>

fun page_chain :: "session \<Rightarrow> nat \<Rightarrow> string \<Rightarrow> body list \<Rightarrow> bool" where
  "page_chain sess n url [] = False"
| "page_chain sess n url (p # ps) =
     (url \<noteq> [] \<and> sess n url = Ok p
      \<and> (if ps = [] then find is_next (b_links p) = None
          else (case next_href p of Some u \<Rightarrow> page_chain sess (Suc n) u ps | None \<Rightarrow> False)))"

text \<open>
  \<open>failing_chain sess n url pages k\<close>: the session serves \<open>pages\<close>, each with a \<open>next\<close>
  link, and then fails the next \<open>k\<close> requests, all for the page after them.
\<close>

fun failing :: "session \<Rightarrow> nat \<Rightarrow> string \<Rightarrow> nat \<Rightarrow> bool" where
  "failing sess n url 0 = True"
| "failing sess n url (Suc k) =
     ((case sess n url of RequestException e \<Rightarrow> True | Ok data \<Rightarrow> False) \<and> failing sess (Suc n) url k)"

fun failing_chain :: "session \<Rightarrow> nat \<Rightarrow> string \<Rightarrow> body list \<Rightarrow> nat \<Rightarrow> bool" where
  "failing_chain sess n url [] k = (url \<noteq> [] \<and> failing sess n url k)"
| "failing_chain sess n url (p # ps) k =
     (url \<noteq> [] \<and> sess n url = Ok p
      \<and> (case next_href p of Some u \<Rightarrow> failing_chain sess (Suc n) u ps k | None \<Rightarrow> False))"

text \<open>
  \<open>refusing_chain sess n url pages ms\<close>: the same, with the messages of the failed
  requests: the session serves \<open>pages\<close>, each with a \<open>next\<close> link, and then fails the
  requests for the page after them with the messages \<open>ms\<close>, one after the other.
\<close>

fun refusing :: "session \<Rightarrow> nat \<Rightarrow> string \<Rightarrow> string list \<Rightarrow> bool" where
  "refusing sess n url [] = True"
| "refusing sess n url (m # ms) = (sess n url = RequestException m \<and> refusing sess (Suc n) url ms)"

fun refusing_chain :: "session \<Rightarrow> nat \<Rightarrow> string \<Rightarrow> body list \<Rightarrow> string list \<Rightarrow> bool" where
  "refusing_chain sess n url [] ms = (url \<noteq> [] \<and> refusing sess n url ms)"
| "refusing_chain sess n url (p # ps) ms =
     (url \<noteq> [] \<and> sess n url = Ok p
      \<and> (case next_href p of Some u \<Rightarrow> refusing_chain sess (Suc n) u ps ms | None \<Rightarrow> False))"

text \<open>The URLs a fetcher requests along a chain.\<close>

fun chain_urls :: "string \<Rightarrow> body list \<Rightarrow> string list" where
  "chain_urls url [] = []"
| "chain_urls url (p # ps) = url # (case next_href p of Some u \<Rightarrow> chain_urls u ps | None \<Rightarrow> [])"

subsection \<open>Synthetic sessions\<close>

definition feature_of :: "string list \<Rightarrow> feature" where
  "feature_of codes = \<lparr>ft_hazard_codes = codes, ft_country_codes = codes\<rparr>"

definition page_of :: "feature list \<Rightarrow> link list \<Rightarrow> body" where
  "page_of fs ls = \<lparr>b_collections = [], b_features = fs, b_links = ls,
                     b_numberMatched = Missing, b_monty_count = Missing\<rparr>"

definition next_to :: "string \<Rightarrow> link" where
  "next_to u = \<lparr>lk_rel = Some ''next'', lk_href = Some u\<rparr>"

definition page_A :: body where
  "page_A = page_of [feature_of [''US''], feature_of [''US'', ''MX'']] [next_to ''page2'']"

definition page_B :: body where
  "page_B = page_of [feature_of [''CA'']] []"

definition page_E :: body where
  "page_E = page_of [] [next_to ''page2'']"

text \<open>Two pages: \<open>page_A\<close> at the first URL, \<open>page_B\<close> behind its \<open>next\<close> link.\<close>

definition two_pages :: "string \<Rightarrow> session" where
  "two_pages url0 n url =
     (if n = 0 \<and> url = url0 then Ok page_A
      else if n = 1 \<and> url = ''page2'' then Ok page_B
      else RequestException ''404'')"

text \<open>The same with an empty first page.\<close>

definition empty_first :: "string \<Rightarrow> session" where
  "empty_first url0 n url =
     (if n = 0 \<and> url = url0 then Ok page_E
      else if n = 1 \<and> url = ''page2'' then Ok page_B
      else RequestException ''404'')"

text \<open>\<open>page_A\<close>, and then every request for the second page fails.\<close>

definition second_page_down :: "string \<Rightarrow> session" where
  "second_page_down url0 n url =
     (if n = 0 \<and> url = url0 then Ok page_A
      else RequestException ''503'')"

definition bin_2000 :: dt_bin where
  "bin_2000 = mk_dt_bin 2000 2026"

definition chunk_2023 :: time_chunk where
  "chunk_2023 = mk_time_chunk 63837590400 63929384430"

text \<open>Two failed requests, then \<open>page_B\<close> at the third.\<close>

definition fails_twice :: "string \<Rightarrow> session" where
  "fails_twice url0 n url =
     (if n < 2 then RequestException ''timeout''
      else if n = 2 \<and> url = url0 then Ok page_B
      else RequestException ''404'')"

text \<open>
  A collection without a summary count whose \<open>limit=1\<close> answer omits \<open>numberMatched\<close>,
  and whose items come on the two pages \<open>page_A\<close> and \<open>page_B\<close>.
\<close>

definition no_counts :: "string \<Rightarrow> session" where
  "no_counts collection_id n url =
     (if n = 0 \<and> url = collection_url collection_id then Ok (page_of [] [])
      else if n = 1 \<and> url = items_limit1_url collection_id then Ok (page_of [feature_of []] [])
      else if n = 2 \<and> url = manual_items_url collection_id then Ok page_A
      else if n = 3 \<and> url = ''page2'' then Ok page_B
      else RequestException ''404'')"

text \<open>An answer to the \<open>limit=1\<close> query of a bin that omits \<open>numberMatched\<close>.\<close>

definition omits_numberMatched :: session where
  "omits_numberMatched n url = Ok (page_of [feature_of []] [])"

definition bin_1800 :: year_bin where
  "bin_1800 = mk_year_bin 1800 1849"

subsection \<open>Synthetic catalogs\<close>

text \<open>
  One collection, \<open>x-events\<close>, with a single item (hazard code FL) in the years
  1950 to 1999 and none in any other bin.
\<close>

definition one_bin_only :: session where
  "one_bin_only n url =
     (if url = BASE_URL @ ''/collections?limit=100'' then
        Ok \<lparr>b_collections = [\<lparr>ce_id = Some ''x-events'', ce_roles = []\<rparr>], b_features = [],
            b_links = [], b_numberMatched = Missing, b_monty_count = Missing\<rparr>
      else if url = hazard_items_url ''x-events'' (mk_dt_bin 1950 1999) then
        Ok (page_of [feature_of [''FL'']] [])
      else Ok (page_of [] []))"

definition x_events_listing :: body where
  "x_events_listing =
     \<lparr>b_collections = [\<lparr>ce_id = Some ''x-events'', ce_roles = [''event'']\<rparr>], b_features = [],
      b_links = [], b_numberMatched = Missing, b_monty_count = Missing\<rparr>"

text \<open>The listing names the one collection \<open>x-events\<close>; every other request fails.\<close>

definition counts_down :: session where
  "counts_down n url =
     (if url = BASE_URL @ ''/collections'' then Ok x_events_listing
      else RequestException ''500'')"

definition bins_down :: session where
  "bins_down n url =
     (if url = BASE_URL @ ''/collections?limit=100'' then Ok x_events_listing
      else RequestException ''500'')"

section \<open>Verified properties\<close>

subsection \<open>Partitions\<close>


lemma tiles_snoc:
  "tiles s c xs \<Longrightarrow> s \<le> c \<Longrightarrow> c < d \<Longrightarrow> tiles s d (xs @ [(c, d)])"
  by (induction xs arbitrary: s) auto


lemma tiles_fst_ge: "tiles s e xs \<Longrightarrow> p \<in> set xs \<Longrightarrow> s \<le> fst p \<and> fst p < snd p \<and> snd p \<le> e"
proof (induction xs arbitrary: s)
  case Nil then show ?case by simp
next
  case (Cons x xs)
  obtain a b where x: "x = (a, b)" by (cases x)
  from Cons.prems x have t: "a = s" "a < b" "b \<le> e" "tiles b e xs" by auto
  show ?case
  proof (cases "p = x")
    case True with t x show ?thesis by auto
  next
    case False
    with Cons.prems have "p \<in> set xs" by auto
    from Cons.IH[OF t(4) this] t show ?thesis by auto
  qed
qed

lemma tiles_adjacent: "tiles s e xs \<Longrightarrow> Suc i < length xs \<Longrightarrow> fst (xs ! Suc i) = snd (xs ! i)"
proof (induction xs arbitrary: s i)
  case Nil then show ?case by simp
next
  case (Cons x xs)
  obtain a b where x: "x = (a, b)" by (cases x)
  from Cons.prems x have t: "tiles b e xs" by auto
  show ?case
  proof (cases i)
    case 0
    with Cons.prems obtain y ys where ys: "xs = y # ys" by (cases xs) auto
    obtain c d where y: "y = (c, d)" by (cases y)
    from t ys y have "c = b" by simp
    with 0 x ys y show ?thesis by simp
  next
    case (Suc k)
    with Cons.prems have "Suc k < length xs" by simp
    from Cons.IH[OF t this] Suc show ?thesis by simp
  qed
qed

lemma tiles_ordered: "tiles s e xs \<Longrightarrow> i < j \<Longrightarrow> j < length xs \<Longrightarrow> snd (xs ! i) \<le> fst (xs ! j)"
proof (induction xs arbitrary: s i j)
  case Nil then show ?case by simp
next
  case (Cons x xs)
  obtain a b where x: "x = (a, b)" by (cases x)
  from Cons.prems x have t: "tiles b e xs" by auto
  from Cons.prems obtain k where j: "j = Suc k" by (cases j) auto
  with Cons.prems have k: "k < length xs" by simp
  show ?case
  proof (cases i)
    case 0
    from k have "xs ! k \<in> set xs" by simp
    from tiles_fst_ge[OF t this] have "b \<le> fst (xs ! k)" by simp
    with 0 j x show ?thesis by simp
  next
    case (Suc l)
    with Cons.prems j have "l < k" by simp
    from Cons.IH[OF t this k] Suc j show ?thesis by simp
  qed
qed

lemma tiles_union: "tiles s e xs \<Longrightarrow> (\<Union>(a, b)\<in>set xs. {a..<b}) = {s..<e}"
proof (induction xs arbitrary: s)
  case Nil then show ?case by simp
next
  case (Cons x xs)
  obtain a b where x: "x = (a, b)" by (cases x)
  from Cons.prems x have t: "a = s" "a < b" "b \<le> e" "tiles b e xs" by auto
  from Cons.IH[OF t(4)] have "(\<Union>(a, b)\<in>set xs. {a..<b}) = {b..<e}" .
  with t x show ?case by auto
qed

lemma tiles_hd_last: "tiles s e xs \<Longrightarrow> xs \<noteq> [] \<Longrightarrow> fst (hd xs) = s \<and> snd (last xs) = e"
proof (induction xs arbitrary: s)
  case Nil then show ?case by simp
next
  case (Cons x xs)
  obtain a b where x: "x = (a, b)" by (cases x)
  from Cons.prems x have t: "a = s" "a < b" "b \<le> e" "tiles b e xs" by auto
  show ?case
  proof (cases xs)
    case Nil with t x show ?thesis by simp
  next
    case (Cons y ys)
    with Cons.IH[OF t(4)] t x show ?thesis by auto
  qed
qed

lemma tiles_empty_iff: "tiles s e xs \<Longrightarrow> xs = [] \<longleftrightarrow> e \<le> s"
  by (cases xs) auto

lemma tiles_closed_union:
  "tiles s e xs \<Longrightarrow> xs \<noteq> [] \<Longrightarrow> (\<Union>(a, b)\<in>set xs. {a..b}) = {s..e}"
proof (induction xs arbitrary: s)
  case Nil then show ?case by simp
next
  case (Cons x xs)
  obtain a b where x: "x = (a, b)" by (cases x)
  from Cons.prems x have t: "a = s" "a < b" "b \<le> e" "tiles b e xs" by auto
  show ?case
  proof (cases xs)
    case Nil
    with t x show ?thesis by auto
  next
    case (Cons y ys)
    with Cons.IH[OF t(4)] have "(\<Union>(a, b)\<in>set xs. {a..b}) = {b..e}" by simp
    with t x show ?thesis by auto
  qed
qed

lemma tiles_chained: "tiles s e xs \<Longrightarrow> chained s e xs"
  unfolding chained_def
proof (intro conjI allI impI ballI)
  assume t: "tiles s e xs"
  show "fst p < snd p" if "p \<in> set xs" for p using tiles_fst_ge[OF t that] by simp
  show "fst (xs ! Suc i) = snd (xs ! i)" if "Suc i < length xs" for i
    by (rule tiles_adjacent[OF t that])
  show "xs = [] \<longleftrightarrow> e \<le> s" by (rule tiles_empty_iff[OF t])
  show "(\<Union>(a, b)\<in>set xs. {a..b}) = {s..e}" if "xs \<noteq> []" by (rule tiles_closed_union[OF t that])
  show "fst (hd xs) = s" if "xs \<noteq> []" using tiles_hd_last[OF t that] by simp
  show "snd (last xs) = e" if "xs \<noteq> []" using tiles_hd_last[OF t that] by simp
  show "{fst (xs ! i)..snd (xs ! i)} \<inter> {fst (xs ! j)..snd (xs ! j)}
          = (if j = Suc i then {snd (xs ! i)} else {})" if ij: "i < j \<and> j < length xs" for i j
  proof (cases "j = Suc i")
    case True
    with ij have a: "fst (xs ! j) = snd (xs ! i)" using tiles_adjacent[OF t, of i] by simp
    from ij have "xs ! i \<in> set xs" "xs ! j \<in> set xs" by simp_all
    from tiles_fst_ge[OF t this(1)] tiles_fst_ge[OF t this(2)] a True show ?thesis by auto
  next
    case False
    with ij have l: "Suc i < j" "Suc i < length xs" by simp_all
    from tiles_ordered[OF t l(1)] ij have o: "snd (xs ! Suc i) \<le> fst (xs ! j)" by simp
    from l have "xs ! Suc i \<in> set xs" by simp
    from tiles_fst_ge[OF t this] tiles_adjacent[OF t l(2)] o
    have "snd (xs ! i) < fst (xs ! j)" by simp
    with False show ?thesis by auto
  qed
qed

lemma tiles_year_ranges:
  assumes t: "tiles s (e + 1) (map (\<lambda>p. (fst p, snd p + 1)) rs)"
  shows "year_ranges s e rs"
  unfolding year_ranges_def
proof (intro conjI allI impI ballI)
  let ?f = "\<lambda>p :: int \<times> int. (fst p, snd p + 1)"
  let ?xs = "map ?f rs"
  show "fst p \<le> snd p" if "p \<in> set rs" for p
  proof -
    from that have "?f p \<in> set ?xs" by simp
    from tiles_fst_ge[OF t this] show ?thesis by simp
  qed
  show "fst (rs ! Suc i) = snd (rs ! i) + 1" if "Suc i < length rs" for i
    using tiles_adjacent[OF t, of i] that by simp
  show "{fst (rs ! i)..snd (rs ! i)} \<inter> {fst (rs ! j)..snd (rs ! j)} = {}"
    if "i < j \<and> j < length rs" for i j
    using tiles_ordered[OF t, of i j] that by auto
  have "(\<Union>(a, b)\<in>set ?xs. {a..<b}) = {s..<e + 1}" by (rule tiles_union[OF t])
  moreover have "(\<Union>(a, b)\<in>set ?xs. {a..<b}) = (\<Union>(a, b)\<in>set rs. {a..b})"
    by (auto simp: split_beta)
  ultimately show "(\<Union>(a, b)\<in>set rs. {a..b}) = {s..e}" by auto
  show "rs = [] \<longleftrightarrow> e < s" using tiles_empty_iff[OF t] by auto
  show "fst (hd rs) = s" if "rs \<noteq> []" using tiles_hd_last[OF t] that by (simp add: hd_map)
  show "snd (last rs) = e" if "rs \<noteq> []" using tiles_hd_last[OF t] that by (simp add: last_map)
qed

lemma by_year_while_tiles:
  "tiles s (min c (e + 1)) (map yb_span bins) \<Longrightarrow> s \<le> c \<Longrightarrow>
   tiles s (e + 1) (map yb_span (by_year_while c e bins))"
proof (induction c e bins rule: by_year_while.induct)
  case (1 c e bins)
  show ?case
  proof (cases "c \<le> e")
    case False
    with "1.prems" show ?thesis by (simp add: by_year_while.simps)
  next
    case True
    let ?b = "mk_year_bin c (if c + 49 > e then e else c + 49)"
    from True "1.prems" have "tiles s c (map yb_span bins)" by simp
    from tiles_snoc[OF this "1.prems"(2), of "min (c + 50) (e + 1)"] True
    have "tiles s (min (c + 50) (e + 1)) (map yb_span (bins @ [?b]))"
      by (auto simp: yb_span_def mk_year_bin_def min_def add.commute)
    from "1.IH"[OF True refl refl refl this] "1.prems" True show ?thesis
      by (simp add: by_year_while.simps[of c e bins] Let_def)
  qed
qed

lemma by_year_tiles:
  "1799 \<le> dt_year now \<Longrightarrow> tiles 1600 (dt_year now + 1) (map yb_span (by_year_generate_time_bins now))"
  unfolding by_year_generate_time_bins_def Let_def
  by (rule by_year_while_tiles) (simp_all add: range_step.simps yb_span_def mk_year_bin_def)



lemma example_5_while_tiles:
  assumes i: "1 \<le> interval"
  shows "tiles s (min c (e + 1)) spans \<Longrightarrow> s \<le> c \<Longrightarrow>
     \<exists>spans'. example_5_while c e interval (map dt_span_bin spans) = Some (map dt_span_bin spans')
              \<and> tiles s (e + 1) spans'"
proof (induction "nat (e + 1 - c)" arbitrary: c spans rule: less_induct)
  case less
  show ?case
  proof (cases "c \<le> e")
    case False
    with less.prems have "tiles s (e + 1) spans" by simp
    with False show ?thesis by (subst example_5_while.simps) auto
  next
    case True
    let ?d = "min (c + interval) (e + 1)"
    from True less.prems have "tiles s c spans" by simp
    from tiles_snoc[OF this less.prems(2), of ?d] True i
    have t: "tiles s (min (c + interval) (e + 1)) (spans @ [(c, ?d)])" by simp
    have m: "nat (e + 1 - (c + interval)) < nat (e + 1 - c)" using True i by simp
    have s: "s \<le> c + interval" using less.prems i by simp
    from less.hyps[OF m t s] obtain spans' where
      r: "example_5_while (c + interval) e interval (map dt_span_bin (spans @ [(c, ?d)]))
            = Some (map dt_span_bin spans')" and t': "tiles s (e + 1) spans'" by blast
    have b: "mk_dt_bin c (if c + interval - 1 > e then e else c + interval - 1) = dt_span_bin (c, ?d)"
      by (simp add: dt_span_bin_def min_def)
    have "example_5_while c e interval (map dt_span_bin spans) = Some (map dt_span_bin spans')"
      using True r b by (subst example_5_while.simps) simp
    with t' show ?thesis by blast
  qed
qed

lemma example_5_tiles:
  "1 \<le> interval \<Longrightarrow>
   \<exists>spans. example_5_generate_time_bins now start_year interval = Some (map dt_span_bin spans)
            \<and> tiles start_year (dt_year now + 1) spans"
  unfolding example_5_generate_time_bins_def
  using example_5_while_tiles[of interval start_year start_year "dt_year now" "[]"] by simp

lemma chunks_while_tiles:
  assumes y: "1 \<le> ypc" and ovf: "e + 31536000 * ypc \<le> DT_MAX"
  shows "tiles s (min c e) spans \<Longrightarrow> s \<le> c \<Longrightarrow> 0 \<le> s \<Longrightarrow>
     \<exists>spans'. chunks_while c e ypc (map span_chunk spans) = Some (Inr (map span_chunk spans'))
              \<and> tiles s e spans'"
proof (induction "nat (e - c)" arbitrary: c spans rule: less_induct)
  case less
  show ?case
  proof (cases "c < e")
    case False
    with less.prems have "tiles s e spans" by simp
    with False show ?thesis by (subst chunks_while.simps) auto
  next
    case True
    let ?t = "c + 365 * ypc * 86400"
    let ?d = "min ?t e"
    from True less.prems ovf y have td: "timedelta_days (365 * ypc) = Inr (365 * ypc * 86400)"
      by (simp add: timedelta_days_def DT_MAX_def)
    from True less.prems ovf y have ad: "dt_add c (365 * ypc * 86400) = Inr ?t"
      by (simp add: dt_add_def DT_MAX_def)
    from True less.prems have "tiles s c spans" by simp
    from tiles_snoc[OF this less.prems(2), of ?d] True y
    have t: "tiles s (min ?d e) (spans @ [(c, ?d)])" by simp
    have m: "nat (e - ?d) < nat (e - c)" using True y by simp
    have s: "s \<le> ?d" using less.prems True y by simp
    from less.hyps[OF m t s less.prems(3)] obtain spans' where
      r: "chunks_while ?d e ypc (map span_chunk (spans @ [(c, ?d)])) = Some (Inr (map span_chunk spans'))"
      and t': "tiles s e spans'" by blast
    have "chunks_while c e ypc (map span_chunk spans) = Some (Inr (map span_chunk spans'))"
      using True r td ad by (subst chunks_while.simps) (simp add: span_chunk_def)
    with t' show ?thesis by blast
  qed
qed

lemma generate_time_chunks_tiles:
  assumes "1 \<le> ypc" and "fromisoformat (replace_Z start_date_str) = Inr start_date"
    and "fromisoformat (replace_Z end_date_str) = Inr end_date"
    and "0 \<le> start_date" and "end_date + 31536000 * ypc \<le> DT_MAX"
  shows "\<exists>spans. generate_time_chunks start_date_str end_date_str ypc = Some (Inr (map span_chunk spans))
            \<and> tiles start_date end_date spans"
  unfolding generate_time_chunks_def
  using chunks_while_tiles[OF assms(1) assms(5), of start_date start_date "[]"] assms(2,3,4) by simp

subsection \<open>Parsed timestamps\<close>

lemma days_before_year_nonneg: "1 \<le> y \<Longrightarrow> 0 \<le> days_before_year y"
proof -
  assume y: "1 \<le> y"
  have "(y - 1) div 100 \<le> (y - 1) div 1" using y by (intro zdiv_mono2) simp_all
  moreover have "0 \<le> (y - 1) div 4" "0 \<le> (y - 1) div 400" using y by simp_all
  ultimately show ?thesis unfolding days_before_year_def Let_def using y by simp
qed

lemma days_before_month_nonneg: "1 \<le> m \<Longrightarrow> m \<le> 12 \<Longrightarrow> 0 \<le> days_before_month y m"
proof -
  assume "1 \<le> m" "m \<le> 12"
  then have "m \<in> {1,2,3,4,5,6,7,8,9,10,11,12}" by (simp, arith)
  then have "0 \<le> DAYS_BEFORE_MONTH ! nat m" unfolding DAYS_BEFORE_MONTH_def by auto
  then show ?thesis unfolding days_before_month_def by simp
qed

lemma fromisoformat_nonneg: "fromisoformat s = Inr t \<Longrightarrow> 0 \<le> t"
proof -
  assume a: "fromisoformat s = Inr t"
  let ?y = "parse_digits 0 (take 4 s)" and ?m = "parse_digits 0 (take 2 (drop 5 s))"
  and ?d = "parse_digits 0 (take 2 (drop 8 s))" and ?hh = "parse_digits 0 (take 2 (drop 11 s))"
  and ?mm = "parse_digits 0 (take 2 (drop 14 s))" and ?ss = "parse_digits 0 (take 2 (drop 17 s))"
  obtain y where y: "?y = Some y" using a unfolding fromisoformat_def
    by (cases ?y) (simp_all split: if_splits)
  obtain m where m: "?m = Some m" using a y unfolding fromisoformat_def
    by (cases ?m) (simp_all split: if_splits)
  obtain d where d: "?d = Some d" using a y m unfolding fromisoformat_def
    by (cases ?d) (simp_all split: if_splits)
  obtain hh where hh: "?hh = Some hh" using a y m d unfolding fromisoformat_def
    by (cases ?hh) (simp_all split: if_splits)
  obtain mm where mm: "?mm = Some mm" using a y m d hh unfolding fromisoformat_def
    by (cases ?mm) (simp_all split: if_splits)
  obtain ss where ss: "?ss = Some ss" using a y m d hh mm unfolding fromisoformat_def
    by (cases ?ss) (simp_all split: if_splits)
  from a y m d hh mm ss have r: "1 \<le> y" "1 \<le> m" "m \<le> 12" "1 \<le> d"
    and t: "t = (ymd2ord (int y) (int m) (int d) - 1) * 86400 + int hh * 3600 + int mm * 60 + int ss"
    unfolding fromisoformat_def by (simp_all split: if_splits)
  from r have "0 \<le> days_before_year (int y)" "0 \<le> days_before_month (int y) (int m)"
    by (auto intro: days_before_year_nonneg days_before_month_nonneg)
  with r have "1 \<le> ymd2ord (int y) (int m) (int d)" unfolding ymd2ord_def by simp
  with t show ?thesis by simp
qed

text \<open>The calendar evaluated on the timestamps used below, in small steps.\<close>

lemmas parse_defs = fromisoformat_def replace_Z_def digit_val_def ymd2ord_def days_before_year_def
  days_before_month_def days_in_month_def is_leap_def DAYS_BEFORE_MONTH_def DAYS_IN_MONTH_def

lemmas ord_defs = ord2ymd_def Let_def DAYS_BEFORE_MONTH_def DAYS_IN_MONTH_def

lemmas str_defs = str_int_def str_nat.simps digit_char_def

lemma ord2ymd_739924: "ord2ymd 739924 = (2026, 11, 4)"
  by (simp add: ord_defs)

lemma str_int_fields:
  "str_int 2026 = ''2026''" "str_int 11 = ''11''" "str_int 4 = ''4''" "str_int 10 = ''10''"
  "str_int 20 = ''20''" "str_int 30 = ''30''" "str_int 31 = ''31''"
  by (simp_all add: str_defs)

lemma strftime_run1: "strftime 63929384430 = ''2026-11-04T10:20:30Z''"
  by (simp add: strftime_def ord2ymd_739924 str_int_fields zfill_def)

lemma strftime_run2: "strftime 63929384431 = ''2026-11-04T10:20:31Z''"
  by (simp add: strftime_def ord2ymd_739924 str_int_fields zfill_def)

lemma parse_run1: "fromisoformat (replace_Z ''2026-11-04T10:20:30Z'') = Inr 63929384430"
  by (simp add: parse_defs)

lemma parse_run2: "fromisoformat (replace_Z ''2026-11-04T10:20:31Z'') = Inr 63929384431"
  by (simp add: parse_defs)

lemma parse_usgs_start: "fromisoformat (replace_Z ''1934-01-01T00:00:00Z'') = Inr 60999523200"
  by (simp add: parse_defs)

lemma dt_year_run1: "dt_year 63929384430 = 2026"
  by (simp add: dt_year_def ord2ymd_739924)

subsection \<open>The ranges of the partitioners\<close>

lemma by_year_ranges:
  assumes "1799 \<le> dt_year now"
  shows "year_ranges 1600 (dt_year now) (map (\<lambda>b. (yb_start b, yb_end b)) (by_year_generate_time_bins now))"
proof (rule tiles_year_ranges)
  from by_year_tiles[OF assms]
  show "tiles 1600 (dt_year now + 1)
     (map (\<lambda>p. (fst p, snd p + 1)) (map (\<lambda>b. (yb_start b, yb_end b)) (by_year_generate_time_bins now)))"
    by (simp add: yb_span_def[abs_def] comp_def)
qed

lemma example_5_ranges:
  assumes "1 \<le> interval"
  shows "\<exists>ranges. example_5_generate_time_bins now start_year interval
             = Some (map (\<lambda>(a, b). \<lparr>db_label = str_int a @ ''-'' @ str_int b,
                                      db_start_datetime = str_int a @ ''-01-01T00:00:00Z'',
                                      db_end_datetime = str_int b @ ''-12-31T23:59:59Z''\<rparr>) ranges)
           \<and> year_ranges start_year (dt_year now) ranges"
proof -
  from example_5_tiles[OF assms, of now start_year] obtain spans where
    g: "example_5_generate_time_bins now start_year interval = Some (map dt_span_bin spans)"
    and t: "tiles start_year (dt_year now + 1) spans" by blast
  let ?rs = "map (\<lambda>p. (fst p, snd p - 1)) spans"
  have "map (\<lambda>p. (fst p, snd p + 1)) ?rs = spans" by (simp add: comp_def)
  with t have yr: "year_ranges start_year (dt_year now) ?rs" by (intro tiles_year_ranges) simp
  have m: "map dt_span_bin spans
      = map (\<lambda>(a, b). \<lparr>db_label = str_int a @ ''-'' @ str_int b,
                        db_start_datetime = str_int a @ ''-01-01T00:00:00Z'',
                        db_end_datetime = str_int b @ ''-12-31T23:59:59Z''\<rparr>) ?rs"
    by (simp add: dt_span_bin_def mk_dt_bin_def comp_def)
  show ?thesis unfolding g m using yr by blast
qed

lemma chunks_chained:
  assumes "1 \<le> ypc" and "fromisoformat (replace_Z start_date_str) = Inr start_date"
    and "fromisoformat (replace_Z end_date_str) = Inr end_date"
    and "end_date + 31536000 * ypc \<le> DT_MAX"
  shows "\<exists>spans. generate_time_chunks start_date_str end_date_str ypc
             = Some (Inr (map (\<lambda>(a, b). \<lparr>tc_start = strftime a, tc_end = strftime b,
                                tc_label = str_int (dt_year a) @ ''-'' @ str_int (dt_year b)\<rparr>) spans))
           \<and> chained start_date end_date spans"
proof -
  from generate_time_chunks_tiles[OF assms(1) assms(2) assms(3) fromisoformat_nonneg[OF assms(2)] assms(4)]
  obtain spans where
    g: "generate_time_chunks start_date_str end_date_str ypc = Some (Inr (map span_chunk spans))"
    and t: "tiles start_date end_date spans" by blast
  have m: "map span_chunk spans
      = map (\<lambda>(a, b). \<lparr>tc_start = strftime a, tc_end = strftime b,
                        tc_label = str_int (dt_year a) @ ''-'' @ str_int (dt_year b)\<rparr>) spans"
    by (simp add: span_chunk_def mk_time_chunk_def split_beta)
  show ?thesis unfolding g m using tiles_chained[OF t] by blast
qed

text \<open>The calendar on the chunks from 2020-01-01 to 2026-11-04T10:20:30.\<close>

lemma ord2ymd_737425: "ord2ymd 737425 = (2020, 1, 1)"
  by (simp add: ord_defs)

lemma ord2ymd_739250: "ord2ymd 739250 = (2024, 12, 30)"
  by (simp add: ord_defs)

lemma str_int_chunk_fields:
  "str_int 2020 = ''2020''" "str_int 2024 = ''2024''" "str_int 1 = ''1''" "str_int 0 = ''0''"
  "str_int 12 = ''12''"
  by (simp_all add: str_defs)

lemma strftime_2020: "strftime 63713433600 = ''2020-01-01T00:00:00Z''"
  by (simp add: strftime_def ord2ymd_737425 str_int_chunk_fields zfill_def)

lemma strftime_2024: "strftime 63871113600 = ''2024-12-30T00:00:00Z''"
  by (simp add: strftime_def ord2ymd_739250 str_int_chunk_fields str_int_fields zfill_def)

lemma dt_year_chunks: "dt_year 63713433600 = 2020" "dt_year 63871113600 = 2024"
  by (simp_all add: dt_year_def ord2ymd_737425 ord2ymd_739250)

lemma parse_2020: "fromisoformat (replace_Z ''2020-01-01T00:00:00Z'') = Inr 63713433600"
  by (simp add: parse_defs)

lemma chunks_from_2020:
  "generate_time_chunks ''2020-01-01T00:00:00Z'' ''2026-11-04T10:20:30Z'' 5
     = Some (Inr [\<lparr>tc_start = ''2020-01-01T00:00:00Z'', tc_end = ''2024-12-30T00:00:00Z'',
                   tc_label = ''2020-2024''\<rparr>,
                  \<lparr>tc_start = ''2024-12-30T00:00:00Z'', tc_end = ''2026-11-04T10:20:30Z'',
                   tc_label = ''2024-2026''\<rparr>])"
  unfolding generate_time_chunks_def parse_2020 parse_run1
  by (simp add: chunks_while.simps timedelta_days_def dt_add_def DT_MAX_def mk_time_chunk_def
      strftime_2020 strftime_2024 strftime_run1 dt_year_chunks dt_year_run1 str_int_chunk_fields
      str_int_fields)

subsection \<open>C1: the bins of every time partitioner cover their range\<close>

text \<open>
  Claim C1, as the code has it. Let \<open>now\<close> be the value of \<open>datetime.now()\<close>. Every
  script queries a bin as \<open>datetime=start/end\<close>, both ends included.

  \<^item> \<open>count_events_by_year.generate_time_bins\<close>: once the current year is 1799 or later,
    the bins, in list order, are ranges of whole years \<open>start..end\<close>, each starting in the
    year after the one before ends, pairwise without a common year, and together exactly
    the years 1600 to the current year.
  \<^item> \<open>example_5.generate_time_bins\<close>: for every start year and every interval of at least
    one year the loop ends. The bins are such ranges of whole years from the start year to
    the current year; the bin of the years \<open>a..b\<close> has the label \<open>a-b\<close>, the start
    timestamp \<open>a-01-01T00:00:00Z\<close> and the end timestamp \<open>b-12-31T23:59:59Z\<close>. So the
    first bin starts on 1 January of the start year and the last bin ends on 31 December,
    23:59:59, of the current year.
  \<^item> \<open>example_3_optimized.generate_time_chunks\<close>: for parsable start and end strings, at
    least one year per chunk and no overflow of the date range, the loop ends without an
    error. The chunk of the seconds \<open>a..b\<close> has the start timestamp of \<open>a\<close>, the end
    timestamp of \<open>b\<close> and the label of their two years. Every chunk starts at the
    timestamp at which the chunk before it ends: two consecutive chunks have that one second
    in common, two others none. Together the chunks are exactly the seconds from the start
    date to the end date; the first starts at the start date, the last ends at the end date.
\<close>

theorem time_partitioners_tile:
  assumes "1799 \<le> dt_year now" and "1 \<le> interval" and "1 \<le> years_per_chunk"
    and "fromisoformat (replace_Z start_date_str) = Inr start_date"
    and "fromisoformat (replace_Z end_date_str) = Inr end_date"
    and "end_date + 31536000 * years_per_chunk \<le> DT_MAX"
  shows "year_ranges 1600 (dt_year now)
           (map (\<lambda>b. (yb_start b, yb_end b)) (by_year_generate_time_bins now))
       \<and> (\<exists>ranges bins.
              example_5_generate_time_bins now start_year interval = Some bins
            \<and> bins = map (\<lambda>(a, b). \<lparr>db_label = str_int a @ ''-'' @ str_int b,
                                      db_start_datetime = str_int a @ ''-01-01T00:00:00Z'',
                                      db_end_datetime = str_int b @ ''-12-31T23:59:59Z''\<rparr>) ranges
            \<and> year_ranges start_year (dt_year now) ranges
            \<and> (bins \<noteq> [] \<longrightarrow>
                   db_start_datetime (hd bins) = str_int start_year @ ''-01-01T00:00:00Z''
                 \<and> db_end_datetime (last bins) = str_int (dt_year now) @ ''-12-31T23:59:59Z''))
       \<and> (\<exists>spans chunks.
              generate_time_chunks start_date_str end_date_str years_per_chunk = Some (Inr chunks)
            \<and> chunks = map (\<lambda>(a, b). \<lparr>tc_start = strftime a, tc_end = strftime b,
                               tc_label = str_int (dt_year a) @ ''-'' @ str_int (dt_year b)\<rparr>) spans
            \<and> chained start_date end_date spans
            \<and> (\<forall>i. Suc i < length chunks \<longrightarrow> tc_start (chunks ! Suc i) = tc_end (chunks ! i))
            \<and> (chunks \<noteq> [] \<longrightarrow>
                   tc_start (hd chunks) = strftime start_date
                 \<and> tc_end (last chunks) = strftime end_date))"
proof (intro conjI)
  show "year_ranges 1600 (dt_year now)
           (map (\<lambda>b. (yb_start b, yb_end b)) (by_year_generate_time_bins now))"
    by (rule by_year_ranges[OF assms(1)])
next
  let ?F = "\<lambda>(a, b). \<lparr>db_label = str_int a @ ''-'' @ str_int b,
                        db_start_datetime = str_int a @ ''-01-01T00:00:00Z'',
                        db_end_datetime = str_int b @ ''-12-31T23:59:59Z''\<rparr>"
  from example_5_ranges[OF assms(2), of now start_year] obtain ranges where
    g: "example_5_generate_time_bins now start_year interval = Some (map ?F ranges)"
    and y: "year_ranges start_year (dt_year now) ranges" by blast
  have e: "db_start_datetime (hd (map ?F ranges)) = str_int start_year @ ''-01-01T00:00:00Z''
         \<and> db_end_datetime (last (map ?F ranges)) = str_int (dt_year now) @ ''-12-31T23:59:59Z''"
    if "map ?F ranges \<noteq> []"
  proof -
    from that have ne: "ranges \<noteq> []" by simp
    with y have "fst (hd ranges) = start_year" "snd (last ranges) = dt_year now"
      by (simp_all add: year_ranges_def)
    with ne show ?thesis by (simp add: hd_map last_map split_beta)
  qed
  from g y e
  show "\<exists>ranges bins.
              example_5_generate_time_bins now start_year interval = Some bins
            \<and> bins = map ?F ranges
            \<and> year_ranges start_year (dt_year now) ranges
            \<and> (bins \<noteq> [] \<longrightarrow>
                   db_start_datetime (hd bins) = str_int start_year @ ''-01-01T00:00:00Z''
                 \<and> db_end_datetime (last bins) = str_int (dt_year now) @ ''-12-31T23:59:59Z'')"
    by blast
next
  let ?G = "\<lambda>(a, b). \<lparr>tc_start = strftime a, tc_end = strftime b,
                        tc_label = str_int (dt_year a) @ ''-'' @ str_int (dt_year b)\<rparr>"
  from chunks_chained[OF assms(3) assms(4) assms(5) assms(6)] obtain spans where
    g: "generate_time_chunks start_date_str end_date_str years_per_chunk = Some (Inr (map ?G spans))"
    and c: "chained start_date end_date spans" by blast
  have a: "tc_start (map ?G spans ! Suc i) = tc_end (map ?G spans ! i)"
    if "Suc i < length (map ?G spans)" for i
  proof -
    from that have l: "Suc i < length spans" by simp
    with c have "fst (spans ! Suc i) = snd (spans ! i)" by (simp add: chained_def)
    with l show ?thesis by (simp add: split_beta)
  qed
  have e: "tc_start (hd (map ?G spans)) = strftime start_date
         \<and> tc_end (last (map ?G spans)) = strftime end_date"
    if "map ?G spans \<noteq> []"
  proof -
    from that have ne: "spans \<noteq> []" by simp
    with c have "fst (hd spans) = start_date" "snd (last spans) = end_date"
      by (simp_all add: chained_def)
    with ne show ?thesis by (simp add: hd_map last_map split_beta)
  qed
  from g c a e
  show "\<exists>spans chunks.
              generate_time_chunks start_date_str end_date_str years_per_chunk = Some (Inr chunks)
            \<and> chunks = map ?G spans
            \<and> chained start_date end_date spans
            \<and> (\<forall>i. Suc i < length chunks \<longrightarrow> tc_start (chunks ! Suc i) = tc_end (chunks ! i))
            \<and> (chunks \<noteq> [] \<longrightarrow>
                   tc_start (hd chunks) = strftime start_date
                 \<and> tc_end (last chunks) = strftime end_date)"
    by blast
qed

text \<open>The hypotheses of C1 hold on 2026-11-04T10:20:30 with the scripts' own constants.\<close>

theorem time_partitioners_tile_witness:
  "1799 \<le> dt_year 63929384430 \<and> (1::int) \<le> 50 \<and> (1::int) \<le> 5
   \<and> fromisoformat (replace_Z ''1934-01-01T00:00:00Z'') = Inr 60999523200
   \<and> fromisoformat (replace_Z ''2026-11-04T10:20:30Z'') = Inr 63929384430
   \<and> 63929384430 + 31536000 * 5 \<le> DT_MAX
   \<and> year_ranges 1600 (dt_year 63929384430)
           (map (\<lambda>b. (yb_start b, yb_end b)) (by_year_generate_time_bins 63929384430))
   \<and> (\<exists>ranges bins.
              example_5_generate_time_bins 63929384430 1800 50 = Some bins
            \<and> bins = map (\<lambda>(a, b). \<lparr>db_label = str_int a @ ''-'' @ str_int b,
                                      db_start_datetime = str_int a @ ''-01-01T00:00:00Z'',
                                      db_end_datetime = str_int b @ ''-12-31T23:59:59Z''\<rparr>) ranges
            \<and> year_ranges 1800 (dt_year 63929384430) ranges
            \<and> (bins \<noteq> [] \<longrightarrow>
                   db_start_datetime (hd bins) = str_int 1800 @ ''-01-01T00:00:00Z''
                 \<and> db_end_datetime (last bins) = str_int (dt_year 63929384430) @ ''-12-31T23:59:59Z''))
   \<and> (\<exists>spans chunks.
              generate_time_chunks ''1934-01-01T00:00:00Z'' ''2026-11-04T10:20:30Z'' 5 = Some (Inr chunks)
            \<and> chunks = map (\<lambda>(a, b). \<lparr>tc_start = strftime a, tc_end = strftime b,
                               tc_label = str_int (dt_year a) @ ''-'' @ str_int (dt_year b)\<rparr>) spans
            \<and> chained 60999523200 63929384430 spans
            \<and> (\<forall>i. Suc i < length chunks \<longrightarrow> tc_start (chunks ! Suc i) = tc_end (chunks ! i))
            \<and> (chunks \<noteq> [] \<longrightarrow>
                   tc_start (hd chunks) = strftime 60999523200
                 \<and> tc_end (last chunks) = strftime 63929384430))"
proof -
  have h1: "1799 \<le> dt_year 63929384430" by (simp add: dt_year_run1)
  have h2: "(1::int) \<le> 50" by simp
  have h3: "(1::int) \<le> 5" by simp
  have h4: "fromisoformat (replace_Z ''1934-01-01T00:00:00Z'') = Inr 60999523200"
    by (rule parse_usgs_start)
  have h5: "fromisoformat (replace_Z ''2026-11-04T10:20:30Z'') = Inr 63929384430"
    by (rule parse_run1)
  have h6: "63929384430 + 31536000 * 5 \<le> DT_MAX" by (simp add: DT_MAX_def)
  from time_partitioners_tile[OF h1 h2 h3 h4 h5 h6, of 1800] h1 h2 h3 h4 h5 h6
  show ?thesis by (intro conjI) blast+
qed

text \<open>
  C1 as the spec words it fails in two ways. On 2026-11-04T10:20:30 the last bin of
  \<open>example_5.generate_time_bins(1800, 50)\<close> ends at 2026-12-31T23:59:59Z, which is later
  than the current date. And the two chunks that \<open>generate_time_chunks\<close> makes of the time
  from 2020-01-01 to that date, five years a chunk, both contain 2024-12-30T00:00:00Z, the
  end of the first and the start of the second: they overlap in that instant.
\<close>

theorem final_bin_end_in_future:
  "strftime 63929384430 = ''2026-11-04T10:20:30Z''
   \<and> example_5_generate_time_bins 63929384430 1800 50
       = Some [mk_dt_bin 1800 1849, mk_dt_bin 1850 1899, mk_dt_bin 1900 1949, mk_dt_bin 1950 1999,
               mk_dt_bin 2000 2026]
   \<and> db_end_datetime (mk_dt_bin 2000 2026) = ''2026-12-31T23:59:59Z''
   \<and> fromisoformat (replace_Z ''2026-12-31T23:59:59Z'') = Inr 63934358399
   \<and> (63929384430 :: datetime) < 63934358399
   \<and> generate_time_chunks ''2020-01-01T00:00:00Z'' ''2026-11-04T10:20:30Z'' 5
       = Some (Inr [\<lparr>tc_start = ''2020-01-01T00:00:00Z'', tc_end = ''2024-12-30T00:00:00Z'',
                     tc_label = ''2020-2024''\<rparr>,
                    \<lparr>tc_start = ''2024-12-30T00:00:00Z'', tc_end = ''2026-11-04T10:20:30Z'',
                     tc_label = ''2024-2026''\<rparr>])"
proof (intro conjI)
  show "strftime 63929384430 = ''2026-11-04T10:20:30Z''" by (rule strftime_run1)
  have y: "dt_year 63929384430 = 2026" by (rule dt_year_run1)
  show "example_5_generate_time_bins 63929384430 1800 50
       = Some [mk_dt_bin 1800 1849, mk_dt_bin 1850 1899, mk_dt_bin 1900 1949, mk_dt_bin 1950 1999,
               mk_dt_bin 2000 2026]"
    unfolding example_5_generate_time_bins_def y by (simp add: example_5_while.simps)
  show "db_end_datetime (mk_dt_bin 2000 2026) = ''2026-12-31T23:59:59Z''"
    by (simp add: mk_dt_bin_def str_int_fields)
  show "fromisoformat (replace_Z ''2026-12-31T23:59:59Z'') = Inr 63934358399"
    by (simp add: parse_defs)
  show "(63929384430 :: datetime) < 63934358399" by simp
  show "generate_time_chunks ''2020-01-01T00:00:00Z'' ''2026-11-04T10:20:30Z'' 5
       = Some (Inr [\<lparr>tc_start = ''2020-01-01T00:00:00Z'', tc_end = ''2024-12-30T00:00:00Z'',
                     tc_label = ''2020-2024''\<rparr>,
                    \<lparr>tc_start = ''2024-12-30T00:00:00Z'', tc_end = ''2026-11-04T10:20:30Z'',
                     tc_label = ''2024-2026''\<rparr>])"
    by (rule chunks_from_2020)
qed

subsection \<open>Decimal strings and their order\<close>

lemma of_char_digit_char: "d < 10 \<Longrightarrow> (of_char (digit_char d) :: nat) = 48 + d"
proof -
  assume "d < 10"
  then have "d \<in> {0, 1, 2, 3, 4, 5, 6, 7, 8, 9}" by (simp, arith)
  then show ?thesis unfolding digit_char_def by auto
qed

lemma digit_char_less: "a < b \<Longrightarrow> b < 10 \<Longrightarrow> digit_char a < digit_char b"
proof -
  assume "a < b" "b < 10"
  then have "(of_char (digit_char a) :: nat) < of_char (digit_char b)"
    by (simp add: of_char_digit_char)
  then show ?thesis by (simp only: less_char_def)
qed

lemma digit_char_in: "d < 10 \<Longrightarrow> digit_char d \<in> set ''0123456789''"
proof -
  assume "d < 10"
  then have "d \<in> {0, 1, 2, 3, 4, 5, 6, 7, 8, 9}" by (simp, arith)
  then show ?thesis unfolding digit_char_def by auto
qed

lemma str_nat_small: "n < 10 \<Longrightarrow> str_nat n = [digit_char n]"
  by (simp add: str_nat.simps)

lemma str_nat_big: "10 \<le> n \<Longrightarrow> str_nat n = str_nat (n div 10) @ [digit_char (n mod 10)]"
  by (subst str_nat.simps) simp

lemma str_nat_digits: "set (str_nat n) \<subseteq> set ''0123456789''"
proof (induction n rule: str_nat.induct)
  case (1 n)
  show ?case
  proof (cases "n < 10")
    case True
    then show ?thesis using digit_char_in[of n] by (simp add: str_nat_small)
  next
    case False
    have "n mod 10 < 10" by simp
    from digit_char_in[OF this] "1.IH"[OF False] False show ?thesis
      by (simp add: str_nat_big)
  qed
qed

lemma length_str_nat_one: "length (str_nat n) = Suc 0 \<longleftrightarrow> n < 10"
proof (cases "n < 10")
  case True then show ?thesis by (simp add: str_nat_small)
next
  case False
  have "str_nat (n div 10) \<noteq> []" by (subst str_nat.simps) simp
  with False show ?thesis by (simp add: str_nat_big)
qed

lemma length_str_nat_four: "1000 \<le> n \<Longrightarrow> n \<le> 9999 \<Longrightarrow> length (str_nat n) = 4"
proof -
  assume a: "1000 \<le> n" "n \<le> 9999"
  then have "10 \<le> n" "10 \<le> n div 10" "10 \<le> n div 10 div 10" "n div 10 div 10 div 10 < 10"
    by simp_all
  then show ?thesis
    by (simp add: str_nat_big[of n] str_nat_big[of "n div 10"] str_nat_big[of "n div 10 div 10"]
        str_nat_small[of "n div 10 div 10 div 10"])
qed

lemma less_append_same_length:
  "length xs = length ys \<Longrightarrow> xs < ys \<Longrightarrow> xs @ u < ys @ (v :: 'a :: linorder list)"
  by (induction xs ys rule: list_induct2) auto

lemma less_same_prefix: "u < v \<Longrightarrow> p @ u < p @ (v :: 'a :: linorder list)"
  by (induction p) auto

lemma str_nat_less:
  "length (str_nat a) = length (str_nat b) \<Longrightarrow> a < b \<Longrightarrow> str_nat a < str_nat b"
proof (induction a arbitrary: b rule: str_nat.induct)
  case (1 a)
  show ?case
  proof (cases "a < 10")
    case True
    then have "length (str_nat a) = Suc 0" using length_str_nat_one[of a] by blast
    with "1.prems"(1) have "length (str_nat b) = Suc 0" by simp
    then have b: "b < 10" using length_str_nat_one[of b] by blast
    with True "1.prems" show ?thesis by (simp add: str_nat_small digit_char_less)
  next
    case False
    then have "length (str_nat a) \<noteq> Suc 0" using length_str_nat_one[of a] by blast
    with "1.prems"(1) have "length (str_nat b) \<noteq> Suc 0" by simp
    then have b: "\<not> b < 10" using length_str_nat_one[of b] by blast
    have ge: "10 \<le> a" "10 \<le> b" using False b by linarith+
    have ea: "str_nat a = str_nat (a div 10) @ [digit_char (a mod 10)]"
      by (rule str_nat_big[OF ge(1)])
    have eb: "str_nat b = str_nat (b div 10) @ [digit_char (b mod 10)]"
      by (rule str_nat_big[OF ge(2)])
    from "1.prems"(1) ea eb have len: "length (str_nat (a div 10)) = length (str_nat (b div 10))"
      by simp
    show ?thesis
    proof (cases "a div 10 < b div 10")
      case True
      from "1.IH"[OF False len True] have "str_nat (a div 10) < str_nat (b div 10)" .
      from less_append_same_length[OF len this, of "[digit_char (a mod 10)]" "[digit_char (b mod 10)]"]
      show ?thesis unfolding ea eb .
    next
      case nl: False
      from "1.prems"(2) have "a div 10 \<le> b div 10" by (simp add: div_le_mono)
      with nl have eq: "a div 10 = b div 10" by simp
      have "10 * (a div 10) + a mod 10 < 10 * (b div 10) + b mod 10"
        using "1.prems"(2) by (simp only: div_mult_mod_eq mult_div_mod_eq)
      then have "a mod 10 < b mod 10" unfolding eq by (simp only: add_less_cancel_left)
      then have "[digit_char (a mod 10)] < [digit_char (b mod 10)]"
        by (simp add: digit_char_less)
      from less_same_prefix[OF this, of "str_nat (a div 10)"] show ?thesis
        unfolding ea eb eq .
    qed
  qed
qed

lemma four_digit_year_labelI:
  "1000 \<le> a \<Longrightarrow> a \<le> e \<Longrightarrow> e \<le> 9999 \<Longrightarrow>
   four_digit_year_label (str_int a @ ''-'' @ str_int e) a e"
  unfolding four_digit_year_label_def str_int_def
  using str_nat_digits[of "nat a"] str_nat_digits[of "nat e"]
  by (simp add: length_str_nat_four)

lemma year_label_less:
  assumes "1000 \<le> a" "a < b" "b \<le> 9999"
  shows "str_int a @ x < str_int b @ y"
proof -
  from assms have l: "length (str_nat (nat a)) = length (str_nat (nat b))"
    by (simp add: length_str_nat_four)
  from assms have "nat a < nat b" by simp
  from less_append_same_length[OF l str_nat_less[OF l this]] assms show ?thesis
    by (simp add: str_int_def)
qed

text \<open>A string sort of strictly increasing labels restores the generation order.\<close>

lemma sorted_unique_restores:
  assumes s: "sorted_wrt (<) ls" and sub: "set obs \<subseteq> set ls"
  shows "sorted_unique obs = filter (\<lambda>l. l \<in> set obs) (ls :: string list)"
proof (rule sorted_distinct_set_unique)
  show "sorted (sorted_unique obs)" "distinct (sorted_unique obs)"
    by (simp_all add: sorted_unique_def)
  from s have "sorted ls" "distinct ls" by (simp_all add: strict_sorted_iff)
  then show "sorted (filter (\<lambda>l. l \<in> set obs) ls)" "distinct (filter (\<lambda>l. l \<in> set obs) ls)"
    by (simp_all add: sorted_wrt_filter)
  from sub show "set (sorted_unique obs) = set (filter (\<lambda>l. l \<in> set obs) ls)"
    by (auto simp: sorted_unique_def)
qed

subsection \<open>Year labels\<close>

lemma by_year_while_made:
  "\<forall>b\<in>set bins. b = mk_year_bin (yb_start b) (yb_end b) \<Longrightarrow>
   \<forall>b\<in>set (by_year_while c e bins). b = mk_year_bin (yb_start b) (yb_end b)"
proof (induction c e bins rule: by_year_while.induct)
  case (1 c e bins)
  show ?case
  proof (cases "c \<le> e")
    case False
    with "1.prems" show ?thesis by (simp add: by_year_while.simps)
  next
    case True
    let ?b = "mk_year_bin c (if c + 49 > e then e else c + 49)"
    have "?b = mk_year_bin (yb_start ?b) (yb_end ?b)" by (simp add: mk_year_bin_def)
    with "1.prems" have "\<forall>b\<in>set (bins @ [?b]). b = mk_year_bin (yb_start b) (yb_end b)"
      by auto
    from "1.IH"[OF True refl refl refl this] True show ?thesis
      by (simp add: by_year_while.simps[of c e bins] Let_def)
  qed
qed

lemma by_year_made:
  "\<forall>b\<in>set (by_year_generate_time_bins now). b = mk_year_bin (yb_start b) (yb_end b)"
  unfolding by_year_generate_time_bins_def Let_def
  by (rule by_year_while_made) (simp add: range_step.simps mk_year_bin_def)

lemma by_year_tiles_max:
  "tiles 1600 (max 1800 (dt_year now + 1)) (map yb_span (by_year_generate_time_bins now))"
proof (cases "1799 \<le> dt_year now")
  case True
  with by_year_tiles[OF True] show ?thesis by (simp add: max_def)
next
  case False
  then show ?thesis
    by (simp add: by_year_generate_time_bins_def by_year_while.simps range_step.simps
        yb_span_def mk_year_bin_def max_def)
qed

lemma tiles_sorted: "tiles s e xs \<Longrightarrow> sorted_wrt (\<lambda>p q. snd p \<le> fst q) xs"
  by (simp add: sorted_wrt_iff_nth_less tiles_ordered)

text \<open>Labels of spans of four-digit years, in chronological order, increase as strings.\<close>

lemma span_labels_sorted:
  assumes t: "tiles s e spans" and lo: "1000 \<le> s" and hi: "e \<le> 10000"
  shows "sorted_wrt (<) (map (\<lambda>p. str_int (fst p) @ ''-'' @ str_int (snd p - 1)) spans)"
proof -
  have "sorted_wrt (\<lambda>p q. str_int (fst p) @ ''-'' @ str_int (snd p - 1)
                          < str_int (fst q) @ ''-'' @ str_int (snd q - 1)) spans"
  proof (rule sorted_wrt_mono_rel[OF _ tiles_sorted[OF t]])
    fix p q assume p: "p \<in> set spans" and q: "q \<in> set spans" and o: "snd p \<le> fst q"
    from tiles_fst_ge[OF t p] tiles_fst_ge[OF t q] o lo hi
    have "1000 \<le> fst p" "fst p < fst q" "fst q \<le> 9999" by auto
    then show "str_int (fst p) @ ''-'' @ str_int (snd p - 1)
                 < str_int (fst q) @ ''-'' @ str_int (snd q - 1)"
      by (rule year_label_less)
  qed
  then show ?thesis by (simp add: sorted_wrt_map)
qed

lemma span_labels_four_digit:
  assumes t: "tiles s e spans" and lo: "1000 \<le> s" and hi: "e \<le> 10000" and p: "p \<in> set spans"
  shows "four_digit_year_label (str_int (fst p) @ ''-'' @ str_int (snd p - 1)) (fst p) (snd p - 1)"
proof -
  from tiles_fst_ge[OF t p] lo hi have "1000 \<le> fst p" "fst p \<le> snd p - 1" "snd p - 1 \<le> 9999"
    by auto
  then show ?thesis by (rule four_digit_year_labelI)
qed

lemma span_labels_chronological:
  assumes t: "tiles s e spans" and lo: "1000 \<le> s" and hi: "e \<le> 10000"
  shows "chronological_labels spans (map (\<lambda>p. str_int (fst p) @ ''-'' @ str_int (snd p - 1)) spans)"
  unfolding chronological_labels_def
proof (intro conjI allI impI)
  let ?ls = "map (\<lambda>p. str_int (fst p) @ ''-'' @ str_int (snd p - 1)) spans"
  show "length ?ls = length spans" by simp
  show "sorted_wrt (\<lambda>p q. snd p \<le> fst q) spans" by (rule tiles_sorted[OF t])
  show s: "sorted_wrt (<) ?ls" by (rule span_labels_sorted[OF t lo hi])
  show "four_digit_year_label (?ls ! i) (fst (spans ! i)) (snd (spans ! i) - 1)"
    if "i < length spans" for i
    using span_labels_four_digit[OF t lo hi, of "spans ! i"] that by simp
  show "sorted_unique col = filter (\<lambda>l. l \<in> set col) ?ls" if "set col \<subseteq> set ?ls" for col
    by (rule sorted_unique_restores[OF s that])
qed

lemma by_year_labels:
  "map yb_label (by_year_generate_time_bins now)
   = map (\<lambda>p. str_int (fst p) @ ''-'' @ str_int (snd p - 1)) (map yb_span (by_year_generate_time_bins now))"
proof -
  have "yb_label b = str_int (fst (yb_span b)) @ ''-'' @ str_int (snd (yb_span b) - 1)"
    if "b \<in> set (by_year_generate_time_bins now)" for b
  proof -
    from by_year_made that have "b = mk_year_bin (yb_start b) (yb_end b)" by blast
    then have "yb_label b = str_int (yb_start b) @ ''-'' @ str_int (yb_end b)"
      by (metis mk_year_bin_def year_bin.select_convs(1))
    then show ?thesis by (simp add: yb_span_def)
  qed
  then show ?thesis by simp
qed

lemma dt_span_labels:
  "map db_label (map dt_span_bin spans)
   = map (\<lambda>p. str_int (fst p) @ ''-'' @ str_int (snd p - 1)) spans"
  by (simp add: dt_span_bin_def mk_dt_bin_def)

subsection \<open>C10: year labels sort chronologically\<close>

text \<open>
  Claim C10. Python's \<open>datetime\<close> has no year beyond 9999, and the scripts start their
  bins at 1600 and at \<open>START_YEAR = 1800\<close>. Then every label of the year-based
  partitioners (\<open>generate_time_bins\<close> of \<open>count_events_by_year\<close> and of
  \<open>example_5\<close>, the latter for every start year from 1000 on and every interval of at
  least one year) has the form \<open>start-end\<close> with two four-digit years and
  \<open>start \<le> end\<close>; the bins are generated in chronological order; their labels increase
  strictly in the lexicographic order of strings; hence \<open>sorted(... .unique())\<close>, by
  which both exporters order their columns, returns the labels it is given in the
  chronological order of their bins.
\<close>

theorem year_labels_sort_chronologically:
  assumes "dt_year now \<le> 9999" and "1000 \<le> start_year" and "1 \<le> interval"
  shows "chronological_labels (map yb_span (by_year_generate_time_bins now))
           (map yb_label (by_year_generate_time_bins now))
       \<and> (\<exists>spans. example_5_generate_time_bins now start_year interval = Some (map dt_span_bin spans)
                  \<and> chronological_labels spans (map db_label (map dt_span_bin spans)))"
proof
  from assms(1) have "max 1800 (dt_year now + 1) \<le> 10000" by simp
  from span_labels_chronological[OF by_year_tiles_max _ this]
  show "chronological_labels (map yb_span (by_year_generate_time_bins now))
           (map yb_label (by_year_generate_time_bins now))"
    by (simp only: by_year_labels)
next
  from example_5_tiles[OF assms(3), of now start_year] obtain spans where
    r: "example_5_generate_time_bins now start_year interval = Some (map dt_span_bin spans)"
    and t: "tiles start_year (dt_year now + 1) spans" by blast
  from assms(1) have "dt_year now + 1 \<le> 10000" by simp
  from span_labels_chronological[OF t assms(2) this]
  have "chronological_labels spans (map db_label (map dt_span_bin spans))"
    by (simp only: dt_span_labels)
  with r show "\<exists>spans. example_5_generate_time_bins now start_year interval = Some (map dt_span_bin spans)
                  \<and> chronological_labels spans (map db_label (map dt_span_bin spans))"
    by blast
qed

text \<open>The hypotheses of C10 hold on 2026-11-04 with \<open>example_5\<close>'s constants 1800 and 50.\<close>

theorem year_labels_sort_chronologically_witness:
  "dt_year 63929384430 \<le> 9999 \<and> (1000::int) \<le> 1800 \<and> (1::int) \<le> 50
   \<and> chronological_labels (map yb_span (by_year_generate_time_bins 63929384430))
           (map yb_label (by_year_generate_time_bins 63929384430))
   \<and> (\<exists>spans. example_5_generate_time_bins 63929384430 1800 50 = Some (map dt_span_bin spans)
                  \<and> chronological_labels spans (map db_label (map dt_span_bin spans)))"
proof -
  have h1: "dt_year 63929384430 \<le> 9999" by (simp add: dt_year_run1)
  have h2: "(1000::int) \<le> 1800" by simp
  have h3: "(1::int) \<le> 50" by simp
  from year_labels_sort_chronologically[OF h1 h2 h3] h1 h2 h3
  show ?thesis by (intro conjI) blast+
qed

subsection \<open>The chunks planned from the clock\<close>

lemma usgs_start_parsed:
  "fromisoformat (replace_Z (str_int START_YEAR_usgs @ ''-01-01T00:00:00Z'')) = Inr 60999523200"
  by (simp add: START_YEAR_usgs_def str_defs parse_defs)

lemma plan_time_chunks_last:
  assumes rt: "fromisoformat (replace_Z (strftime now)) = Inr now"
    and after: "60999523200 < now" and ovf: "now + 31536000 * 5 \<le> DT_MAX"
  shows "\<exists>chunks. plan_time_chunks now = Some (Inr chunks) \<and> chunks \<noteq> []
           \<and> tc_end (last chunks) = strftime now"
proof -
  have y: "(1::int) \<le> 5" by simp
  from generate_time_chunks_tiles[OF y usgs_start_parsed rt _ ovf]
  obtain spans where r: "generate_time_chunks (str_int START_YEAR_usgs @ ''-01-01T00:00:00Z'')
      (strftime now) 5 = Some (Inr (map span_chunk spans))"
    and t: "tiles 60999523200 now spans" by auto
  from t after have ne: "spans \<noteq> []" by (cases spans) auto
  from tiles_hd_last[OF t ne] have "snd (last spans) = now" by simp
  with ne have "tc_end (last (map span_chunk spans)) = strftime now"
    by (simp add: last_map span_chunk_def mk_time_chunk_def)
  with r ne show ?thesis
    by (simp add: plan_time_chunks_def get_collection_temporal_extent_def YEARS_PER_CHUNK_def)
qed

subsection \<open>C6: running the partitioners twice on one day\<close>

text \<open>
  Claim C6, as the code has it. For two runs whose clocks show the same calendar day:
  the year bins of \<open>count_events_by_year\<close> and of \<open>example_5\<close> are identical (they
  depend on the current year only). The chunks of \<open>example_3_optimized\<close> are planned
  from the clock read to the second: the run plans at least one chunk and its last chunk
  ends at the run's own timestamp, so the chunks of two runs agree when both read the
  same second, not merely the same day.
\<close>

theorem rerun_same_day:
  assumes "now1 div 86400 = now2 div 86400"
    and "fromisoformat (replace_Z (strftime now1)) = Inr now1"
    and "60999523200 < now1" and "now1 + 31536000 * 5 \<le> DT_MAX"
  shows "by_year_generate_time_bins now1 = by_year_generate_time_bins now2
       \<and> example_5_generate_time_bins now1 start_year interval
           = example_5_generate_time_bins now2 start_year interval
       \<and> (\<exists>chunks. plan_time_chunks now1 = Some (Inr chunks) \<and> chunks \<noteq> []
              \<and> tc_end (last chunks) = strftime now1)"
proof (intro conjI)
  from assms(1) have y: "dt_year now1 = dt_year now2" by (simp add: dt_year_def)
  show "by_year_generate_time_bins now1 = by_year_generate_time_bins now2"
    by (simp add: by_year_generate_time_bins_def y)
  show "example_5_generate_time_bins now1 start_year interval
           = example_5_generate_time_bins now2 start_year interval"
    by (simp add: example_5_generate_time_bins_def y)
  show "\<exists>chunks. plan_time_chunks now1 = Some (Inr chunks) \<and> chunks \<noteq> []
              \<and> tc_end (last chunks) = strftime now1"
    by (rule plan_time_chunks_last[OF assms(2) assms(3) assms(4)])
qed

text \<open>The hypotheses of C6 hold for runs at 10:20:30 and at 23:59:59 on 2026-11-04.\<close>

theorem rerun_same_day_witness:
  "(63929384430::int) div 86400 = 63929433599 div 86400
   \<and> fromisoformat (replace_Z (strftime 63929384430)) = Inr 63929384430
   \<and> (60999523200::int) < 63929384430 \<and> 63929384430 + 31536000 * 5 \<le> DT_MAX
   \<and> by_year_generate_time_bins 63929384430 = by_year_generate_time_bins 63929433599
   \<and> example_5_generate_time_bins 63929384430 1800 50
       = example_5_generate_time_bins 63929433599 1800 50
   \<and> (\<exists>chunks. plan_time_chunks 63929384430 = Some (Inr chunks) \<and> chunks \<noteq> []
              \<and> tc_end (last chunks) = strftime 63929384430)"
proof -
  have h1: "(63929384430::int) div 86400 = 63929433599 div 86400" by simp
  have h2: "fromisoformat (replace_Z (strftime 63929384430)) = Inr 63929384430"
    by (simp only: strftime_run1 parse_run1)
  have h3: "(60999523200::int) < 63929384430" by simp
  have h4: "63929384430 + 31536000 * 5 \<le> DT_MAX" by (simp add: DT_MAX_def)
  from rerun_same_day[OF h1 h2 h3 h4, of 1800 50] h1 h2 h3 h4
  show ?thesis by (intro conjI) blast+
qed

text \<open>
  C6 as the spec words it fails: two runs of \<open>example_3_optimized\<close> one second apart on
  2026-11-04 plan different chunks.
\<close>

theorem rerun_same_day_chunks_differ:
  "(63929384430::int) div 86400 = 63929384431 div 86400
   \<and> plan_time_chunks 63929384430 \<noteq> plan_time_chunks 63929384431"
proof
  show "(63929384430::int) div 86400 = 63929384431 div 86400" by simp
  have a: "fromisoformat (replace_Z (strftime 63929384430)) = Inr 63929384430"
    by (simp only: strftime_run1 parse_run1)
  have b: "fromisoformat (replace_Z (strftime 63929384431)) = Inr 63929384431"
    by (simp only: strftime_run2 parse_run2)
  from plan_time_chunks_last[OF a] obtain c1 where
    c1: "plan_time_chunks 63929384430 = Some (Inr c1)" "tc_end (last c1) = strftime 63929384430"
    by (auto simp: DT_MAX_def)
  from plan_time_chunks_last[OF b] obtain c2 where
    c2: "plan_time_chunks 63929384431 = Some (Inr c2)" "tc_end (last c2) = strftime 63929384431"
    by (auto simp: DT_MAX_def)
  have "strftime 63929384430 \<noteq> strftime 63929384431"
    unfolding strftime_run1 strftime_run2 by simp
  with c1 c2 show "plan_time_chunks 63929384430 \<noteq> plan_time_chunks 63929384431" by auto
qed

subsection \<open>Following a chain of pages\<close>

lemma last_page_no_next: "find is_next (b_links p) = None \<Longrightarrow> next_href p = None"
  by (simp add: next_href_def is_next_def[abs_def])

lemma page_chain_cases:
  assumes "page_chain sess n url (p # ps)"
  shows "url \<noteq> []" and "sess n url = Ok p"
    and "ps = [] \<Longrightarrow> next_href p = None"
    and "ps \<noteq> [] \<Longrightarrow> \<exists>u. next_href p = Some u \<and> u \<noteq> [] \<and> page_chain sess (Suc n) u ps"
proof -
  from assms show "url \<noteq> []" "sess n url = Ok p" by simp_all
  show "next_href p = None" if "ps = []"
    using assms that by (simp add: last_page_no_next)
  show "\<exists>u. next_href p = Some u \<and> u \<noteq> [] \<and> page_chain sess (Suc n) u ps" if "ps \<noteq> []"
  proof -
    have "case next_href p of Some u \<Rightarrow> page_chain sess (Suc n) u ps | None \<Rightarrow> False"
      using assms that by simp
    then obtain u where u: "next_href p = Some u" "page_chain sess (Suc n) u ps"
      by (cases "next_href p") auto
    from u(2) that have "u \<noteq> []" by (cases ps) auto
    with u show ?thesis by simp
  qed
qed

lemma count_items_while_chain:
  "page_chain sess n url pages \<Longrightarrow>
   count_items_while sess n (Some url) c = Some (Counted (c + items_on pages))"
proof (induction pages arbitrary: n url c)
  case Nil
  then show ?case by simp
next
  case (Cons p ps)
  note c = page_chain_cases[OF Cons.prems]
  show ?case
  proof (cases "ps = []")
    case True
    with c(1,2) c(3)[OF True] show ?thesis
      by (subst count_items_while.simps, subst count_items_while.simps) (simp add: items_on_def)
  next
    case False
    from c(4)[OF False] obtain u where u: "next_href p = Some u" "page_chain sess (Suc n) u ps"
      by blast
    from Cons.IH[OF u(2), of "c + length (b_features p)"] c(1,2) u(1) show ?thesis
      by (subst count_items_while.simps) (simp add: items_on_def)
  qed
qed

lemma attempts_list: "[0..<max_retries] = [0, 1, 2]"
  unfolding max_retries_def by code_simp

lemma retry_for_first_try:
  "sess n url = Ok p \<Longrightarrow>
   retry_for sess url n [0..<max_retries] fx
     = Fetched p (Suc n) (fx\<lparr>fx_requested := fx_requested fx @ [url]\<rparr>)"
  by (simp add: attempts_list)

lemma fetch_time_chunk_while_done:
  "fetch_time_chunk_while sess cid lbl None pc ti ctr n fx
     = Some \<lparr>cr_counter = ctr, cr_error = None, cr_total_items = ti, cr_page_count = pc,
             cr_effects = fx\<rparr>"
  by (subst fetch_time_chunk_while.simps) simp

lemma fetch_counts_while_done:
  "fetch_counts_while sess cid lbl None items ctr n fx
     = Some \<lparr>br_collection = cid, br_label = lbl, br_counts = ctr, br_items_fetched = items,
             br_effects = fx\<rparr>"
  by (subst fetch_counts_while.simps) simp

lemma fetch_time_chunk_while_chain:
  "page_chain sess n url pages \<Longrightarrow>
   fetch_time_chunk_while sess cid lbl (Some url) pc ti ctr n fx
     = Some \<lparr>cr_counter = foldl (\<lambda>c p. count_country_codes (b_features p) c) ctr pages,
             cr_error = None, cr_total_items = ti + items_on pages,
             cr_page_count = pc + length pages,
             cr_effects = fx\<lparr>fx_requested := fx_requested fx @ chain_urls url pages\<rparr>\<rparr>"
proof (induction pages arbitrary: n url pc ti ctr fx)
  case Nil
  then show ?case by simp
next
  case (Cons p ps)
  note c = page_chain_cases[OF Cons.prems]
  note r = retry_for_first_try[of sess n url p fx, OF c(2)]
  show ?case
  proof (cases "ps = []")
    case True
    with c(1) c(3)[OF True] r show ?thesis
      by (subst fetch_time_chunk_while.simps)
         (simp add: items_on_def fetch_time_chunk_while_done)
  next
    case False
    from c(4)[OF False] obtain u where u: "next_href p = Some u" "page_chain sess (Suc n) u ps"
      by blast
    from Cons.IH[OF u(2)] c(1) u(1) r show ?thesis
      by (subst fetch_time_chunk_while.simps) (simp add: items_on_def)
  qed
qed

lemma fetch_counts_while_chain:
  "page_chain sess n url pages \<Longrightarrow> 0 < items \<or> b_features (hd pages) \<noteq> [] \<Longrightarrow>
   fetch_counts_while sess cid lbl (Some url) items ctr n fx
     = Some \<lparr>br_collection = cid, br_label = lbl,
             br_counts = foldl (\<lambda>c p. count_hazard_codes (b_features p) c) ctr pages,
             br_items_fetched = items + items_on pages,
             br_effects = fx\<lparr>fx_requested := fx_requested fx @ chain_urls url pages\<rparr>\<rparr>"
proof (induction pages arbitrary: n url items ctr fx)
  case Nil
  then show ?case by simp
next
  case (Cons p ps)
  note c = page_chain_cases[OF Cons.prems(1)]
  from Cons.prems(2) have g: "items \<noteq> 0 \<or> b_features p \<noteq> []" by auto
  show ?case
  proof (cases "ps = []")
    case True
    with c(1,2) c(3)[OF True] g show ?thesis
      by (subst fetch_counts_while.simps)
         (auto simp: items_on_def fetch_counts_while_done)
  next
    case False
    from c(4)[OF False] obtain u where u: "next_href p = Some u" "page_chain sess (Suc n) u ps"
      by blast
    from g have "0 < items + length (b_features p) \<or> b_features (hd ps) \<noteq> []" by auto
    from Cons.IH[OF u(2) this] c(1,2) u(1) g show ?thesis
      by (subst fetch_counts_while.simps) (auto simp: items_on_def)
  qed
qed

lemma fetch_counts_while_empty_first:
  assumes a: "page_chain sess n url pages" and e: "b_features (hd pages) = []"
  shows "fetch_counts_while sess cid lbl (Some url) 0 ctr n fx
     = Some \<lparr>br_collection = cid, br_label = lbl, br_counts = [], br_items_fetched = 0,
             br_effects = fx\<lparr>fx_requested := fx_requested fx @ [url]\<rparr>\<rparr>"
proof (cases pages)
  case Nil
  with a show ?thesis by simp
next
  case (Cons p ps)
  from page_chain_cases(1,2)[OF a[unfolded Cons]] e Cons show ?thesis
    by (subst fetch_counts_while.simps) simp
qed

subsection \<open>The synthetic sessions serve chains\<close>

lemmas page_defs = page_A_def page_B_def page_E_def page_of_def next_to_def feature_of_def
  next_href_def is_next_def

lemma two_pages_chain: "url0 \<noteq> [] \<Longrightarrow> page_chain (two_pages url0) 0 url0 [page_A, page_B]"
  by (simp add: two_pages_def page_defs)

lemma empty_first_chain: "url0 \<noteq> [] \<Longrightarrow> page_chain (empty_first url0) 0 url0 [page_E, page_B]"
  by (simp add: empty_first_def page_defs)

lemma urls_nonempty:
  "manual_items_url cid \<noteq> []" "time_chunk_url cid chunk \<noteq> []" "hazard_items_url cid b \<noteq> []"
  by (simp_all add: manual_items_url_def time_chunk_url_def hazard_items_url_def BASE_URL_def
      BASE_URL_collections_def)

subsection \<open>C4: pagination ends and counts every item\<close>

text \<open>
  Claim C4, as the code has it. Let a session serve a finite chain of pages from the
  fetcher's first URL: every page but the last has a \<open>next\<close> link (the first one found is
  the one followed, so a page may carry several), the last page has none. Then

  \<^item> \<open>count_items_manually\<close> returns, and its count is the sum of the pages' numbers of
    features;
  \<^item> \<open>fetch_time_chunk\<close> returns without an error entry, having counted that sum of items
    over as many pages as the chain has;
  \<^item> \<open>fetch_counts_for_bin\<close> of \<open>example_5\<close> returns, having processed that sum of
    items, unless the first page of the chain is empty: then it stops at once with zero items
    and does not follow the \<open>next\<close> link.
\<close>

theorem pagination_terminates_and_counts:
  assumes "page_chain sess1 0 (manual_items_url collection_id) pages1"
    and "page_chain sess2 0 (time_chunk_url collection_id time_chunk) pages2"
    and "page_chain sess3 0 (hazard_items_url collection_id time_bin) pages3"
  shows "count_items_manually sess1 0 collection_id = Some (Counted (items_on pages1))
       \<and> (\<exists>r. fetch_time_chunk sess2 collection_id time_chunk = Some r
              \<and> cr_total_items r = items_on pages2 \<and> cr_page_count r = length pages2
              \<and> cr_error r = None)
       \<and> (\<exists>r. fetch_counts_for_bin sess3 collection_id time_bin = Some r
              \<and> br_items_fetched r = (if b_features (hd pages3) = [] then 0 else items_on pages3))"
proof (intro conjI)
  show "count_items_manually sess1 0 collection_id = Some (Counted (items_on pages1))"
    unfolding count_items_manually_def using count_items_while_chain[OF assms(1), of 0] by simp
  show "\<exists>r. fetch_time_chunk sess2 collection_id time_chunk = Some r
              \<and> cr_total_items r = items_on pages2 \<and> cr_page_count r = length pages2
              \<and> cr_error r = None"
    unfolding fetch_time_chunk_def by (simp add: fetch_time_chunk_while_chain[OF assms(2)])
  show "\<exists>r. fetch_counts_for_bin sess3 collection_id time_bin = Some r
              \<and> br_items_fetched r = (if b_features (hd pages3) = [] then 0 else items_on pages3)"
  proof (cases "b_features (hd pages3) = []")
    case True
    then show ?thesis unfolding fetch_counts_for_bin_def
      by (simp add: fetch_counts_while_empty_first[OF assms(3)])
  next
    case False
    then show ?thesis unfolding fetch_counts_for_bin_def
      by (simp add: fetch_counts_while_chain[OF assms(3)])
  qed
qed

text \<open>A chain of two pages with two features and one feature satisfies the hypotheses of C4.\<close>

theorem pagination_terminates_and_counts_witness:
  "page_chain (two_pages (manual_items_url ''usgs-events'')) 0 (manual_items_url ''usgs-events'')
     [page_A, page_B]
   \<and> page_chain (two_pages (time_chunk_url ''usgs-events'' chunk_2023)) 0
       (time_chunk_url ''usgs-events'' chunk_2023) [page_A, page_B]
   \<and> page_chain (two_pages (hazard_items_url ''usgs-events'' bin_2000)) 0
       (hazard_items_url ''usgs-events'' bin_2000) [page_A, page_B]
   \<and> items_on [page_A, page_B] = 3
   \<and> count_items_manually (two_pages (manual_items_url ''usgs-events'')) 0 ''usgs-events''
       = Some (Counted (items_on [page_A, page_B]))
   \<and> (\<exists>r. fetch_time_chunk (two_pages (time_chunk_url ''usgs-events'' chunk_2023)) ''usgs-events''
             chunk_2023 = Some r
          \<and> cr_total_items r = items_on [page_A, page_B] \<and> cr_page_count r = length [page_A, page_B]
          \<and> cr_error r = None)
   \<and> (\<exists>r. fetch_counts_for_bin (two_pages (hazard_items_url ''usgs-events'' bin_2000))
             ''usgs-events'' bin_2000 = Some r
          \<and> br_items_fetched r
              = (if b_features (hd [page_A, page_B]) = [] then 0 else items_on [page_A, page_B]))"
proof -
  have h1: "page_chain (two_pages (manual_items_url ''usgs-events'')) 0
     (manual_items_url ''usgs-events'') [page_A, page_B]"
    by (rule two_pages_chain[OF urls_nonempty(1)])
  have h2: "page_chain (two_pages (time_chunk_url ''usgs-events'' chunk_2023)) 0
       (time_chunk_url ''usgs-events'' chunk_2023) [page_A, page_B]"
    by (rule two_pages_chain[OF urls_nonempty(2)])
  have h3: "page_chain (two_pages (hazard_items_url ''usgs-events'' bin_2000)) 0
       (hazard_items_url ''usgs-events'' bin_2000) [page_A, page_B]"
    by (rule two_pages_chain[OF urls_nonempty(3)])
  have n: "items_on [page_A, page_B] = 3" by (simp add: items_on_def page_defs)
  from pagination_terminates_and_counts[OF h1 h2 h3] h1 h2 h3 n
  show ?thesis by (intro conjI) blast+
qed

text \<open>
  C4 as the spec words it fails for \<open>example_5\<close>: served an empty first page that links to
  a page with one feature, \<open>fetch_counts_for_bin\<close> reports zero items, not one.
\<close>

theorem empty_first_page_stops_example_5:
  "page_chain (empty_first (hazard_items_url ''usgs-events'' bin_2000)) 0
     (hazard_items_url ''usgs-events'' bin_2000) [page_E, page_B]
   \<and> items_on [page_E, page_B] = 1
   \<and> map_option br_items_fetched
        (fetch_counts_for_bin (empty_first (hazard_items_url ''usgs-events'' bin_2000))
           ''usgs-events'' bin_2000) = Some 0"
proof (intro conjI)
  show c: "page_chain (empty_first (hazard_items_url ''usgs-events'' bin_2000)) 0
     (hazard_items_url ''usgs-events'' bin_2000) [page_E, page_B]"
    by (rule empty_first_chain[OF urls_nonempty(3)])
  show "items_on [page_E, page_B] = 1" by (simp add: items_on_def page_defs)
  have "b_features (hd [page_E, page_B]) = []" by (simp add: page_defs)
  from fetch_counts_while_empty_first[OF c this]
  show "map_option br_items_fetched
        (fetch_counts_for_bin (empty_first (hazard_items_url ''usgs-events'' bin_2000))
           ''usgs-events'' bin_2000) = Some 0"
    by (simp add: fetch_counts_for_bin_def)
qed

subsection \<open>Failed requests\<close>

lemma failing_chain_cases:
  assumes "failing_chain sess n url (p # ps) k"
  shows "url \<noteq> []" and "sess n url = Ok p"
    and "\<exists>u. next_href p = Some u \<and> failing_chain sess (Suc n) u ps k"
proof -
  from assms show "url \<noteq> []" "sess n url = Ok p" by simp_all
  have "case next_href p of Some u \<Rightarrow> failing_chain sess (Suc n) u ps k | None \<Rightarrow> False"
    using assms by simp
  then show "\<exists>u. next_href p = Some u \<and> failing_chain sess (Suc n) u ps k"
    by (cases "next_href p") auto
qed

lemma failing_Suc:
  "failing sess n url (Suc k) \<Longrightarrow> \<exists>e. sess n url = RequestException e \<and> failing sess (Suc n) url k"
  by (cases "sess n url") auto

text \<open>\<open>example_5\<close>: the first failed request ends the task with nothing.\<close>

lemma fetch_counts_while_failing:
  "failing_chain sess n url pages (Suc k) \<Longrightarrow>
   \<exists>r. fetch_counts_while sess cid lbl (Some url) items ctr n fx = Some r
       \<and> br_collection r = cid \<and> br_label r = lbl \<and> br_counts r = []
       \<and> fx_error_file (br_effects r) = fx_error_file fx
       \<and> fx_slept (br_effects r) = fx_slept fx
       \<and> length (fx_requested (br_effects r)) \<le> length (fx_requested fx) + length pages + 1"
proof (induction pages arbitrary: n url items ctr fx)
  case Nil
  then have u: "url \<noteq> []" and "failing sess n url (Suc k)" by simp_all
  from failing_Suc[OF this(2)] obtain e where "sess n url = RequestException e" by blast
  with u show ?case by (subst fetch_counts_while.simps) simp
next
  case (Cons p ps)
  note c = failing_chain_cases[OF Cons.prems]
  from c(3) obtain u where u: "next_href p = Some u" "failing_chain sess (Suc n) u ps (Suc k)"
    by blast
  show ?case
  proof (cases "b_features p = [] \<and> items = 0")
    case True
    with c(1,2) show ?thesis by (subst fetch_counts_while.simps) simp
  next
    case False
    from Cons.IH[OF u(2), of "items + length (b_features p)"
        "count_hazard_codes (b_features p) ctr" "fx\<lparr>fx_requested := fx_requested fx @ [url]\<rparr>"]
    obtain r where r: "fetch_counts_while sess cid lbl (Some u) (items + length (b_features p))
        (count_hazard_codes (b_features p) ctr) (Suc n) (fx\<lparr>fx_requested := fx_requested fx @ [url]\<rparr>)
        = Some r" "br_collection r = cid" "br_label r = lbl" "br_counts r = []"
      "fx_error_file (br_effects r) = fx_error_file fx" "fx_slept (br_effects r) = fx_slept fx"
      "length (fx_requested (br_effects r)) \<le> length (fx_requested fx) + length (p # ps) + 1"
      by auto
    have "fetch_counts_while sess cid lbl (Some url) items ctr n fx = Some r"
      using c(1,2) u(1) False r(1) by (subst fetch_counts_while.simps) auto
    with r show ?thesis by blast
  qed
qed

text \<open>\<open>example_3_optimized\<close>: the attempts at one page.\<close>

lemma retry_for_recovers:
  assumes f: "failing sess n url k" and k: "k < max_retries" and ok: "sess (n + k) url = Ok data"
  shows "retry_for sess url n [0..<max_retries] fx
     = Fetched data (Suc (n + k))
         (fx\<lparr>fx_requested := fx_requested fx @ replicate (Suc k) url,
             fx_slept := fx_slept fx @ map (\<lambda>attempt. 2 ^ attempt) [0..<k]\<rparr>)"
proof -
  from k have "k = 0 \<or> k = 1 \<or> k = 2" by (auto simp: max_retries_def)
  then show ?thesis
  proof (elim disjE)
    assume "k = 0"
    with ok show ?thesis by (simp add: attempts_list)
  next
    assume k1: "k = 1"
    with f obtain e where "sess n url = RequestException e" using failing_Suc[of sess n url 0] by auto
    with ok k1 show ?thesis unfolding attempts_list by (simp add: max_retries_def)
  next
    assume k2: "k = 2"
    with f obtain e where e: "sess n url = RequestException e" and f': "failing sess (Suc n) url 1"
      using failing_Suc[of sess n url 1] by (auto simp: numeral_2_eq_2)
    from f' obtain e' where "sess (Suc n) url = RequestException e'"
      using failing_Suc[of sess "Suc n" url 0] by auto
    with e ok k2 show ?thesis unfolding attempts_list
      by (simp add: max_retries_def numeral_2_eq_2)
  qed
qed

lemma retry_for_exhausts:
  assumes f: "failing sess n url max_retries"
  shows "\<exists>ex. sess (n + 2) url = RequestException ex
     \<and> retry_for sess url n [0..<max_retries] fx
       = Exhausted ex (n + 3)
           (fx\<lparr>fx_requested := fx_requested fx @ [url, url, url],
               fx_slept := fx_slept fx @ [1, 2, 4]\<rparr>)"
proof -
  from f have f3: "failing sess n url (Suc (Suc (Suc 0)))" by (simp add: max_retries_def numeral_3_eq_3)
  from failing_Suc[OF f3] obtain e0 where e0: "sess n url = RequestException e0"
    and f2: "failing sess (Suc n) url (Suc (Suc 0))" by blast
  from failing_Suc[OF f2] obtain e1 where e1: "sess (Suc n) url = RequestException e1"
    and f1: "failing sess (Suc (Suc n)) url (Suc 0)" by blast
  from failing_Suc[OF f1] obtain e2 where e2: "sess (Suc (Suc n)) url = RequestException e2" by blast
  have "retry_for sess url n [0..<max_retries] fx
       = Exhausted e2 (n + 3)
           (fx\<lparr>fx_requested := fx_requested fx @ [url, url, url],
               fx_slept := fx_slept fx @ [1, 2, 4]\<rparr>)"
    using e0 e1 e2 unfolding attempts_list by (simp add: max_retries_def)
  with e2 show ?thesis by (auto simp: numeral_2_eq_2)
qed

lemma fetch_time_chunk_while_exhausts:
  "failing_chain sess n url pages max_retries \<Longrightarrow>
   \<exists>r ex. fetch_time_chunk_while sess cid lbl (Some url) pc ti ctr n fx = Some r
       \<and> cr_counter r = foldl (\<lambda>c p. count_country_codes (b_features p) c) ctr pages
       \<and> cr_error r = Some (failure_entry cid lbl (Suc (pc + length pages)) ex)
       \<and> cr_total_items r = ti + items_on pages
       \<and> fx_error_file (cr_effects r)
           = fx_error_file fx @ [failure_entry cid lbl (Suc (pc + length pages)) ex]
       \<and> fx_slept (cr_effects r) = fx_slept fx @ [1, 2, 4]
       \<and> length (fx_requested (cr_effects r)) = length (fx_requested fx) + length pages + 3"
proof (induction pages arbitrary: n url pc ti ctr fx)
  case Nil
  then have u: "url \<noteq> []" and f: "failing sess n url max_retries" by simp_all
  from retry_for_exhausts[OF f, of fx] obtain ex where
    "retry_for sess url n [0..<max_retries] fx
       = Exhausted ex (n + 3)
           (fx\<lparr>fx_requested := fx_requested fx @ [url, url, url],
               fx_slept := fx_slept fx @ [1, 2, 4]\<rparr>)" by blast
  with u show ?case by (subst fetch_time_chunk_while.simps) (auto simp: items_on_def)
next
  case (Cons p ps)
  note c = failing_chain_cases[OF Cons.prems]
  note r = retry_for_first_try[of sess n url p fx, OF c(2)]
  from c(3) obtain u where u: "next_href p = Some u" "failing_chain sess (Suc n) u ps max_retries"
    by blast
  from Cons.IH[OF u(2), of "Suc pc" "ti + length (b_features p)"
      "count_country_codes (b_features p) ctr" "fx\<lparr>fx_requested := fx_requested fx @ [url]\<rparr>"]
  obtain res ex where res:
    "fetch_time_chunk_while sess cid lbl (Some u) (Suc pc) (ti + length (b_features p))
       (count_country_codes (b_features p) ctr) (Suc n) (fx\<lparr>fx_requested := fx_requested fx @ [url]\<rparr>)
       = Some res"
    "cr_counter res = foldl (\<lambda>c p. count_country_codes (b_features p) c) ctr (p # ps)"
    "cr_error res = Some (failure_entry cid lbl (Suc (pc + length (p # ps))) ex)"
    "cr_total_items res = ti + items_on (p # ps)"
    "fx_error_file (cr_effects res)
       = fx_error_file fx @ [failure_entry cid lbl (Suc (pc + length (p # ps))) ex]"
    "fx_slept (cr_effects res) = fx_slept fx @ [1, 2, 4]"
    "length (fx_requested (cr_effects res)) = length (fx_requested fx) + length (p # ps) + 3"
    by (auto simp: items_on_def)
  have "fetch_time_chunk_while sess cid lbl (Some url) pc ti ctr n fx = Some res"
    using c(1) u(1) r res(1) by (subst fetch_time_chunk_while.simps) simp
  with res show ?case by blast
qed

lemma refusing_chain_cases:
  assumes "refusing_chain sess n url (p # ps) ms"
  shows "url \<noteq> []" and "sess n url = Ok p"
    and "\<exists>u. next_href p = Some u \<and> refusing_chain sess (Suc n) u ps ms"
proof -
  from assms show "url \<noteq> []" "sess n url = Ok p" by simp_all
  have "case next_href p of Some u \<Rightarrow> refusing_chain sess (Suc n) u ps ms | None \<Rightarrow> False"
    using assms by simp
  then show "\<exists>u. next_href p = Some u \<and> refusing_chain sess (Suc n) u ps ms"
    by (cases "next_href p") auto
qed

lemma retry_for_refused:
  assumes "refusing sess n url [m1, m2, m3]"
  shows "retry_for sess url n [0..<max_retries] fx
       = Exhausted m3 (n + 3)
           (fx\<lparr>fx_requested := fx_requested fx @ [url, url, url],
               fx_slept := fx_slept fx @ [1, 2, 4]\<rparr>)"
  using assms unfolding attempts_list by (simp add: max_retries_def)

lemma failure_entry_fields:
  "failure_entry cid lbl page ex
     = \<lparr>ee_collection = cid, ee_time_chunk = lbl, ee_page = page,
        ee_reason = ''Failed after 3 attempts: '' @ ex\<rparr>"
  by (simp add: failure_entry_def max_retries_def str_defs)

lemma fetch_time_chunk_while_refused:
  "refusing_chain sess n url pages [m1, m2, m3] \<Longrightarrow>
   \<exists>r. fetch_time_chunk_while sess cid lbl (Some url) pc ti ctr n fx = Some r
       \<and> cr_counter r = foldl (\<lambda>c p. count_country_codes (b_features p) c) ctr pages
       \<and> cr_error r = Some (failure_entry cid lbl (Suc (pc + length pages)) m3)
       \<and> cr_total_items r = ti + items_on pages
       \<and> fx_error_file (cr_effects r)
           = fx_error_file fx @ [failure_entry cid lbl (Suc (pc + length pages)) m3]
       \<and> fx_slept (cr_effects r) = fx_slept fx @ [1, 2, 4]
       \<and> length (fx_requested (cr_effects r)) = length (fx_requested fx) + length pages + 3"
proof (induction pages arbitrary: n url pc ti ctr fx)
  case Nil
  then have u: "url \<noteq> []" and f: "refusing sess n url [m1, m2, m3]" by simp_all
  note r = retry_for_refused[OF f, of fx]
  with u show ?case by (subst fetch_time_chunk_while.simps) (auto simp: items_on_def)
next
  case (Cons p ps)
  note c = refusing_chain_cases[OF Cons.prems]
  note r = retry_for_first_try[of sess n url p fx, OF c(2)]
  from c(3) obtain u where u: "next_href p = Some u" "refusing_chain sess (Suc n) u ps [m1, m2, m3]"
    by blast
  from Cons.IH[OF u(2), of "Suc pc" "ti + length (b_features p)"
      "count_country_codes (b_features p) ctr" "fx\<lparr>fx_requested := fx_requested fx @ [url]\<rparr>"]
  obtain res where res:
    "fetch_time_chunk_while sess cid lbl (Some u) (Suc pc) (ti + length (b_features p))
       (count_country_codes (b_features p) ctr) (Suc n) (fx\<lparr>fx_requested := fx_requested fx @ [url]\<rparr>)
       = Some res"
    "cr_counter res = foldl (\<lambda>c p. count_country_codes (b_features p) c) ctr (p # ps)"
    "cr_error res = Some (failure_entry cid lbl (Suc (pc + length (p # ps))) m3)"
    "cr_total_items res = ti + items_on (p # ps)"
    "fx_error_file (cr_effects res)
       = fx_error_file fx @ [failure_entry cid lbl (Suc (pc + length (p # ps))) m3]"
    "fx_slept (cr_effects res) = fx_slept fx @ [1, 2, 4]"
    "length (fx_requested (cr_effects res)) = length (fx_requested fx) + length (p # ps) + 3"
    by (auto simp: items_on_def)
  have "fetch_time_chunk_while sess cid lbl (Some url) pc ti ctr n fx = Some res"
    using c(1) u(1) r res(1) by (subst fetch_time_chunk_while.simps) simp
  with res show ?case by blast
qed

lemma second_page_down_refusing:
  "url0 \<noteq> [] \<Longrightarrow> refusing_chain (second_page_down url0) 0 url0 [page_A] [''503'', ''503'', ''503'']"
  by (simp add: second_page_down_def page_defs)

lemma second_page_down_chain:
  "url0 \<noteq> [] \<Longrightarrow> failing_chain (second_page_down url0) 0 url0 [page_A] k"
proof -
  have "failing (second_page_down url0) (Suc n) ''page2'' k" for n
    by (induction k arbitrary: n) (simp_all add: second_page_down_def)
  then show "url0 \<noteq> [] \<Longrightarrow> failing_chain (second_page_down url0) 0 url0 [page_A] k"
    by (simp add: second_page_down_def page_defs)
qed

lemma tallies_page_A:
  "count_hazard_codes (b_features page_A) [] = [(''US'', 2), (''MX'', 1)]"
  "count_country_codes (b_features page_A) [] = [(''US'', 2), (''MX'', 1)]"
  by (simp_all add: count_hazard_codes_def count_country_codes_def counter_update_def page_defs)

subsection \<open>C9: a failed page empties the task of \<open>example_5\<close>\<close>

text \<open>
  Claim C9. In \<open>example_5\<close>'s \<open>fetch_counts_for_bin\<close>, let the session serve any number
  of pages, each with a \<open>next\<close> link, and then fail the request for the page after them
  (no page at all: the very first request fails). Then the task returns, with its
  collection and label, an empty frequency map: the tallies of the pages fetched before the
  failure are dropped. Nothing is appended to an error file.
\<close>

theorem example_5_failure_discards_tallies:
  assumes "failing_chain sess 0 (hazard_items_url collection_id time_bin) pages 1"
  shows "\<exists>r. fetch_counts_for_bin sess collection_id time_bin = Some r
           \<and> br_collection r = collection_id \<and> br_label r = db_label time_bin
           \<and> br_counts r = [] \<and> fx_error_file (br_effects r) = []"
  unfolding fetch_counts_for_bin_def
  using fetch_counts_while_failing[OF assms[unfolded One_nat_def],
      of collection_id "db_label time_bin" 0 "[]" no_effects]
  by (auto simp: no_effects_def)

text \<open>
  The hypothesis of C9 holds for a first page with the codes US, US, MX followed by a failing
  second page: the tallies at the time of the failure are not empty.
\<close>

theorem example_5_failure_discards_tallies_witness:
  "failing_chain (second_page_down (hazard_items_url ''usgs-events'' bin_2000)) 0
     (hazard_items_url ''usgs-events'' bin_2000) [page_A] 1
   \<and> count_hazard_codes (b_features page_A) [] = [(''US'', 2), (''MX'', 1)]
   \<and> (\<exists>r. fetch_counts_for_bin (second_page_down (hazard_items_url ''usgs-events'' bin_2000))
             ''usgs-events'' bin_2000 = Some r
          \<and> br_collection r = ''usgs-events'' \<and> br_label r = db_label bin_2000
          \<and> br_counts r = [] \<and> fx_error_file (br_effects r) = [])"
proof -
  have h: "failing_chain (second_page_down (hazard_items_url ''usgs-events'' bin_2000)) 0
     (hazard_items_url ''usgs-events'' bin_2000) [page_A] 1"
    by (rule second_page_down_chain[OF urls_nonempty(3)])
  from example_5_failure_discards_tallies[OF h] h tallies_page_A(1)
  show ?thesis by (intro conjI) blast+
qed

subsection \<open>C2: retries, backoff and the error record\<close>

text \<open>
  Claim C2, as the code has it. In \<open>example_3_optimized.fetch_time_chunk\<close>:

  \<^item> a page whose request fails \<open>k < 3\<close> times and then succeeds is fetched at attempt
    \<open>k + 1\<close>, after sleeps of \<open>2 ^ 0, ..., 2 ^ (k - 1)\<close> seconds, the delay doubling with
    every attempt;
  \<^item> when, after any number of pages fetched, the three requests for the next page fail
    with the messages \<open>m1\<close>, \<open>m2\<close> and \<open>m3\<close>, the task returns (it raises nothing) with
    exactly one error entry. Its \<open>collection\<close> is the collection, its \<open>time_chunk\<close> the
    chunk's label, its \<open>page\<close> the number of the failed page and its \<open>reason\<close> the text
    \<open>Failed after 3 attempts: \<close> followed by \<open>m3\<close>; it is the one entry appended to the
    error file. The task has slept 1, 2 and 4 seconds, and has made one request for each
    page fetched and three for the failed one. It hands back the tallies of the pages
    fetched before the failure, whatever they are.

  In \<open>example_5.fetch_counts_for_bin\<close> there is no retry: the failed page is requested
  once, the task does not sleep, writes no error entry and returns an empty map.
\<close>

theorem retries_then_one_error_record:
  assumes "failing sess1 n url k" and "k < max_retries" and "sess1 (n + k) url = Ok data"
    and "refusing_chain sess2 0 (time_chunk_url collection_id time_chunk) pages2 [m1, m2, m3]"
    and "failing_chain sess3 0 (hazard_items_url collection_id time_bin) pages3 1"
  shows "retry_for sess1 url n [0..<max_retries] fx
           = Fetched data (Suc (n + k))
               (fx\<lparr>fx_requested := fx_requested fx @ replicate (Suc k) url,
                   fx_slept := fx_slept fx @ map (\<lambda>attempt. 2 ^ attempt) [0..<k]\<rparr>)
       \<and> (\<exists>r. fetch_time_chunk sess2 collection_id time_chunk = Some r
              \<and> cr_counter r = foldl (\<lambda>c p. count_country_codes (b_features p) c) [] pages2
              \<and> cr_error r
                  = Some \<lparr>ee_collection = collection_id, ee_time_chunk = tc_label time_chunk,
                          ee_page = Suc (length pages2),
                          ee_reason = ''Failed after 3 attempts: '' @ m3\<rparr>
              \<and> fx_error_file (cr_effects r)
                  = [\<lparr>ee_collection = collection_id, ee_time_chunk = tc_label time_chunk,
                      ee_page = Suc (length pages2),
                      ee_reason = ''Failed after 3 attempts: '' @ m3\<rparr>]
              \<and> fx_slept (cr_effects r) = [1, 2, 4]
              \<and> length (fx_requested (cr_effects r)) = length pages2 + 3)
       \<and> (\<exists>r. fetch_counts_for_bin sess3 collection_id time_bin = Some r
              \<and> br_counts r = [] \<and> fx_slept (br_effects r) = []
              \<and> fx_error_file (br_effects r) = []
              \<and> length (fx_requested (br_effects r)) \<le> length pages3 + 1)"
proof (intro conjI)
  show "retry_for sess1 url n [0..<max_retries] fx
           = Fetched data (Suc (n + k))
               (fx\<lparr>fx_requested := fx_requested fx @ replicate (Suc k) url,
                   fx_slept := fx_slept fx @ map (\<lambda>attempt. 2 ^ attempt) [0..<k]\<rparr>)"
    by (rule retry_for_recovers[OF assms(1) assms(2) assms(3)])
  show "\<exists>r. fetch_time_chunk sess2 collection_id time_chunk = Some r
              \<and> cr_counter r = foldl (\<lambda>c p. count_country_codes (b_features p) c) [] pages2
              \<and> cr_error r
                  = Some \<lparr>ee_collection = collection_id, ee_time_chunk = tc_label time_chunk,
                          ee_page = Suc (length pages2),
                          ee_reason = ''Failed after 3 attempts: '' @ m3\<rparr>
              \<and> fx_error_file (cr_effects r)
                  = [\<lparr>ee_collection = collection_id, ee_time_chunk = tc_label time_chunk,
                      ee_page = Suc (length pages2),
                      ee_reason = ''Failed after 3 attempts: '' @ m3\<rparr>]
              \<and> fx_slept (cr_effects r) = [1, 2, 4]
              \<and> length (fx_requested (cr_effects r)) = length pages2 + 3"
    unfolding fetch_time_chunk_def
    using fetch_time_chunk_while_refused[OF assms(4), of collection_id "tc_label time_chunk"
        0 0 "[]" no_effects]
    unfolding failure_entry_fields
    by (auto simp: no_effects_def)
  show "\<exists>r. fetch_counts_for_bin sess3 collection_id time_bin = Some r
              \<and> br_counts r = [] \<and> fx_slept (br_effects r) = []
              \<and> fx_error_file (br_effects r) = []
              \<and> length (fx_requested (br_effects r)) \<le> length pages3 + 1"
    unfolding fetch_counts_for_bin_def
    using fetch_counts_while_failing[OF assms(5)[unfolded One_nat_def],
        of collection_id "db_label time_bin" 0 "[]" no_effects]
    by (auto simp: no_effects_def)
qed

text \<open>
  The hypotheses of C2 hold for a page that fails twice before it is served, and for a
  first page followed by a second page that is down.
\<close>

theorem retries_then_one_error_record_witness:
  "failing (fails_twice ''page9'') 0 ''page9'' 2 \<and> 2 < max_retries
   \<and> fails_twice ''page9'' (0 + 2) ''page9'' = Ok page_B
   \<and> refusing_chain (second_page_down (time_chunk_url ''usgs-events'' chunk_2023)) 0
       (time_chunk_url ''usgs-events'' chunk_2023) [page_A] [''503'', ''503'', ''503'']
   \<and> failing_chain (second_page_down (hazard_items_url ''usgs-events'' bin_2000)) 0
       (hazard_items_url ''usgs-events'' bin_2000) [page_A] 1
   \<and> retry_for (fails_twice ''page9'') ''page9'' 0 [0..<max_retries] no_effects
           = Fetched page_B (Suc (0 + 2))
               (no_effects\<lparr>fx_requested := fx_requested no_effects @ replicate (Suc 2) ''page9'',
                   fx_slept := fx_slept no_effects @ map (\<lambda>attempt. 2 ^ attempt) [0..<2]\<rparr>)
   \<and> (\<exists>r. fetch_time_chunk (second_page_down (time_chunk_url ''usgs-events'' chunk_2023))
                ''usgs-events'' chunk_2023 = Some r
              \<and> cr_counter r = foldl (\<lambda>c p. count_country_codes (b_features p) c) [] [page_A]
              \<and> cr_error r
                  = Some \<lparr>ee_collection = ''usgs-events'', ee_time_chunk = tc_label chunk_2023,
                          ee_page = Suc (length [page_A]),
                          ee_reason = ''Failed after 3 attempts: '' @ ''503''\<rparr>
              \<and> fx_error_file (cr_effects r)
                  = [\<lparr>ee_collection = ''usgs-events'', ee_time_chunk = tc_label chunk_2023,
                      ee_page = Suc (length [page_A]),
                      ee_reason = ''Failed after 3 attempts: '' @ ''503''\<rparr>]
              \<and> fx_slept (cr_effects r) = [1, 2, 4]
              \<and> length (fx_requested (cr_effects r)) = length [page_A] + 3)
   \<and> (\<exists>r. fetch_counts_for_bin (second_page_down (hazard_items_url ''usgs-events'' bin_2000))
             ''usgs-events'' bin_2000 = Some r
              \<and> br_counts r = [] \<and> fx_slept (br_effects r) = []
              \<and> fx_error_file (br_effects r) = []
              \<and> length (fx_requested (br_effects r)) \<le> length [page_A] + 1)"
proof -
  have h1: "failing (fails_twice ''page9'') 0 ''page9'' 2"
    by (simp add: fails_twice_def numeral_2_eq_2)
  have h2: "2 < max_retries" by (simp add: max_retries_def)
  have h3: "fails_twice ''page9'' (0 + 2) ''page9'' = Ok page_B" by (simp add: fails_twice_def)
  have h4: "refusing_chain (second_page_down (time_chunk_url ''usgs-events'' chunk_2023)) 0
       (time_chunk_url ''usgs-events'' chunk_2023) [page_A] [''503'', ''503'', ''503'']"
    by (rule second_page_down_refusing[OF urls_nonempty(2)])
  have h5: "failing_chain (second_page_down (hazard_items_url ''usgs-events'' bin_2000)) 0
       (hazard_items_url ''usgs-events'' bin_2000) [page_A] 1"
    by (rule second_page_down_chain[OF urls_nonempty(3)])
  from retries_then_one_error_record[OF h1 h2 h3 h4 h5, of no_effects] h1 h2 h3 h4 h5
  show ?thesis by (intro conjI) blast+
qed

text \<open>
  C2 as the spec words it fails: when the second page of a chunk fails three times,
  \<open>fetch_time_chunk\<close> returns the tallies of the first page (US twice, MX once), which
  \<open>fetch_country_counts_parallel\<close> then adds to the combined counter; the contribution of
  the failed task is not empty.
\<close>

theorem exhausted_task_keeps_earlier_pages:
  "failing_chain (second_page_down (time_chunk_url ''usgs-events'' chunk_2023)) 0
       (time_chunk_url ''usgs-events'' chunk_2023) [page_A] max_retries
   \<and> map_option cr_counter
        (fetch_time_chunk (second_page_down (time_chunk_url ''usgs-events'' chunk_2023))
           ''usgs-events'' chunk_2023) = Some [(''US'', 2), (''MX'', 1)]"
proof
  show h: "failing_chain (second_page_down (time_chunk_url ''usgs-events'' chunk_2023)) 0
       (time_chunk_url ''usgs-events'' chunk_2023) [page_A] max_retries"
    by (rule second_page_down_chain[OF urls_nonempty(2)])
  from fetch_time_chunk_while_exhausts[OF h, of "''usgs-events''" "tc_label chunk_2023"
        0 0 "[]" no_effects]
  show "map_option cr_counter
        (fetch_time_chunk (second_page_down (time_chunk_url ''usgs-events'' chunk_2023))
           ''usgs-events'' chunk_2023) = Some [(''US'', 2), (''MX'', 1)]"
    unfolding fetch_time_chunk_def by (auto simp: tallies_page_A)
qed

subsection \<open>Count mode\<close>

lemma fetch_count_for_bin_requests:
  "ct_requested (fetch_count_for_bin sess collection_id time_bin)
   = [count_items_url collection_id time_bin]"
  by (simp add: fetch_count_for_bin_def Let_def split: response.split)

lemma fetch_count_for_bin_missing:
  assumes "sess 0 (count_items_url collection_id time_bin) = Ok data"
    and "b_numberMatched data = Missing \<or> b_numberMatched data = JNull"
  shows "ct_row (fetch_count_for_bin sess collection_id time_bin)
           = \<lparr>row_collection = collection_id, row_time_period = yb_label time_bin,
              row_event_count = Count 0\<rparr>"
    and "warning_no_numberMatched collection_id (yb_label time_bin)
           \<in> set (ct_printed (fetch_count_for_bin sess collection_id time_bin))"
  using assms by (auto simp: fetch_count_for_bin_def Let_def)

lemma fetch_collection_count_fallback:
  assumes "sess 0 (collection_url collection_id) = Ok summary"
    and "b_monty_count summary = Missing \<or> b_monty_count summary = JNull"
    and "sess 1 (items_limit1_url collection_id) = Ok data"
    and "b_numberMatched data = Missing"
  shows "fetch_collection_count sess collection_id
     = map_option (\<lambda>manual_count. \<lparr>cc_collection_id = collection_id,
                                      cc_total_events = Manual manual_count\<rparr>)
         (count_items_manually sess 2 collection_id)"
  using assms by (auto simp: fetch_collection_count_def)

lemma no_counts_answers:
  "no_counts c 0 (collection_url c) = Ok (page_of [] [])"
  "no_counts c 1 (items_limit1_url c) = Ok (page_of [feature_of []] [])"
  "b_monty_count (page_of [] []) = Missing"
  "b_numberMatched (page_of [feature_of []] []) = Missing"
  by (simp_all add: no_counts_def page_of_def)

subsection \<open>C5: a response without \<open>numberMatched\<close>\<close>

text \<open>
  Claim C5, as the code has it. \<open>count_events_by_year.fetch_count_for_bin\<close> issues one
  request, for the URL with \<open>limit=1\<close>, and runs no pagination loop; when the response
  body omits \<open>numberMatched\<close> the row it returns for that collection and time bin has the
  count zero, and the warning is among the lines it prints.
  \<open>count_events_per_collection.fetch_collection_count\<close> behaves differently: when the
  collection's summary has no \<open>monty:count\<close> and the answer to its \<open>limit=1\<close> query
  omits \<open>numberMatched\<close>, it falls back to \<open>count_items_manually\<close>, the pagination
  loop over all items, and returns what that loop counts.
\<close>

theorem count_mode_missing_total:
  assumes "sess 0 (count_items_url collection_id time_bin) = Ok data"
    and "b_numberMatched data = Missing"
    and "sess' 0 (collection_url collection_id') = Ok summary"
    and "b_monty_count summary = Missing"
    and "sess' 1 (items_limit1_url collection_id') = Ok data'"
    and "b_numberMatched data' = Missing"
  shows "ct_requested (fetch_count_for_bin sess collection_id time_bin)
           = [count_items_url collection_id time_bin]
       \<and> (\<exists>range. count_items_url collection_id time_bin
              = BASE_URL @ ''/collections/'' @ collection_id @ ''/items?limit=1&datetime='' @ range)
       \<and> ct_row (fetch_count_for_bin sess collection_id time_bin)
           = \<lparr>row_collection = collection_id, row_time_period = yb_label time_bin,
              row_event_count = Count 0\<rparr>
       \<and> warning_no_numberMatched collection_id (yb_label time_bin)
           \<in> set (ct_printed (fetch_count_for_bin sess collection_id time_bin))
       \<and> fetch_collection_count sess' collection_id'
           = map_option (\<lambda>manual_count. \<lparr>cc_collection_id = collection_id',
                                            cc_total_events = Manual manual_count\<rparr>)
               (count_items_manually sess' 2 collection_id')"
proof (intro conjI)
  show "ct_requested (fetch_count_for_bin sess collection_id time_bin)
           = [count_items_url collection_id time_bin]"
    by (rule fetch_count_for_bin_requests)
  show "\<exists>range. count_items_url collection_id time_bin
              = BASE_URL @ ''/collections/'' @ collection_id @ ''/items?limit=1&datetime='' @ range"
    unfolding count_items_url_def by blast
  from assms(2) have m: "b_numberMatched data = Missing \<or> b_numberMatched data = JNull" by simp
  show "ct_row (fetch_count_for_bin sess collection_id time_bin)
           = \<lparr>row_collection = collection_id, row_time_period = yb_label time_bin,
              row_event_count = Count 0\<rparr>"
    by (rule fetch_count_for_bin_missing(1)[where sess=sess, OF assms(1) m])
  show "warning_no_numberMatched collection_id (yb_label time_bin)
           \<in> set (ct_printed (fetch_count_for_bin sess collection_id time_bin))"
    by (rule fetch_count_for_bin_missing(2)[where sess=sess, OF assms(1) m])
  from assms(4) have s: "b_monty_count summary = Missing \<or> b_monty_count summary = JNull" by simp
  show "fetch_collection_count sess' collection_id'
           = map_option (\<lambda>manual_count. \<lparr>cc_collection_id = collection_id',
                                            cc_total_events = Manual manual_count\<rparr>)
               (count_items_manually sess' 2 collection_id')"
    by (rule fetch_collection_count_fallback[where sess=sess', OF assms(3) s assms(5) assms(6)])
qed

text \<open>The hypotheses of C5 hold for the two synthetic sessions without counts.\<close>

theorem count_mode_missing_total_witness:
  "omits_numberMatched 0 (count_items_url ''usgs-events'' bin_1800) = Ok (page_of [feature_of []] [])
   \<and> b_numberMatched (page_of [feature_of []] []) = Missing
   \<and> no_counts ''usgs-events'' 0 (collection_url ''usgs-events'') = Ok (page_of [] [])
   \<and> b_monty_count (page_of [] []) = Missing
   \<and> no_counts ''usgs-events'' 1 (items_limit1_url ''usgs-events'') = Ok (page_of [feature_of []] [])
   \<and> ct_requested (fetch_count_for_bin omits_numberMatched ''usgs-events'' bin_1800)
           = [count_items_url ''usgs-events'' bin_1800]
   \<and> (\<exists>range. count_items_url ''usgs-events'' bin_1800
              = BASE_URL @ ''/collections/'' @ ''usgs-events'' @ ''/items?limit=1&datetime='' @ range)
   \<and> ct_row (fetch_count_for_bin omits_numberMatched ''usgs-events'' bin_1800)
           = \<lparr>row_collection = ''usgs-events'', row_time_period = yb_label bin_1800,
              row_event_count = Count 0\<rparr>
   \<and> warning_no_numberMatched ''usgs-events'' (yb_label bin_1800)
           \<in> set (ct_printed (fetch_count_for_bin omits_numberMatched ''usgs-events'' bin_1800))
   \<and> fetch_collection_count (no_counts ''usgs-events'') ''usgs-events''
           = map_option (\<lambda>manual_count. \<lparr>cc_collection_id = ''usgs-events'',
                                            cc_total_events = Manual manual_count\<rparr>)
               (count_items_manually (no_counts ''usgs-events'') 2 ''usgs-events'')"
proof -
  have h1: "omits_numberMatched 0 (count_items_url ''usgs-events'' bin_1800)
              = Ok (page_of [feature_of []] [])"
    by (simp add: omits_numberMatched_def)
  note h2 = no_counts_answers(4)
  note h3 = no_counts_answers(1)[of "''usgs-events''"]
  note h4 = no_counts_answers(3)
  note h5 = no_counts_answers(2)[of "''usgs-events''"]
  from count_mode_missing_total[where sess=omits_numberMatched and sess'="no_counts ''usgs-events''",
      OF h1 h2 h3 h4 h5 h2] h1 h2 h3 h4 h5
  show ?thesis by (intro conjI) blast+
qed

text \<open>
  C5 as the spec words it fails for \<open>fetch_collection_count\<close>: the answer to the
  \<open>limit=1\<close> query omits \<open>numberMatched\<close>, and the count returned is not zero but 3,
  the number of items on the two pages the manual count walks through.
\<close>

theorem missing_total_counted_by_hand:
  "no_counts ''usgs-events'' 1 (items_limit1_url ''usgs-events'') = Ok (page_of [feature_of []] [])
   \<and> b_numberMatched (page_of [feature_of []] []) = Missing
   \<and> fetch_collection_count (no_counts ''usgs-events'') ''usgs-events''
       = Some \<lparr>cc_collection_id = ''usgs-events'', cc_total_events = Manual (Counted 3)\<rparr>"
proof (intro conjI)
  show "no_counts ''usgs-events'' 1 (items_limit1_url ''usgs-events'')
          = Ok (page_of [feature_of []] [])"
    by (rule no_counts_answers(2))
  show "b_numberMatched (page_of [feature_of []] []) = Missing" by (rule no_counts_answers(4))
  have c: "page_chain (no_counts ''usgs-events'') 2 (manual_items_url ''usgs-events'')
             [page_A, page_B]"
    using urls_nonempty(1)[of "''usgs-events''"] by (simp add: no_counts_def page_defs)
  have s: "b_monty_count (page_of [] []) = Missing \<or> b_monty_count (page_of [] []) = JNull"
    by (simp add: no_counts_answers(3))
  have "fetch_collection_count (no_counts ''usgs-events'') ''usgs-events''
      = map_option (\<lambda>manual_count. \<lparr>cc_collection_id = ''usgs-events'',
                                       cc_total_events = Manual manual_count\<rparr>)
          (count_items_manually (no_counts ''usgs-events'') 2 ''usgs-events'')"
    by (rule fetch_collection_count_fallback[where sess="no_counts ''usgs-events''",
          OF no_counts_answers(1) s no_counts_answers(2) no_counts_answers(4)])
  also have "count_items_manually (no_counts ''usgs-events'') 2 ''usgs-events'' = Some (Counted 3)"
    unfolding count_items_manually_def
    using count_items_while_chain[OF c, of 0] by (simp add: items_on_def page_defs)
  finally show "fetch_collection_count (no_counts ''usgs-events'') ''usgs-events''
       = Some \<lparr>cc_collection_id = ''usgs-events'', cc_total_events = Manual (Counted 3)\<rparr>"
    by simp
qed

subsection \<open>The most common first\<close>

lemma most_common_descending: "sorted_wrt (\<lambda>a b. snd b \<le> snd a) (most_common c)"
proof -
  have "sorted (map snd (sort_key snd (rev c)))" by simp
  then have "sorted_wrt (\<lambda>a b. snd a \<le> snd b) (sort_key snd (rev c))"
    by (simp add: sorted_map)
  then show ?thesis unfolding most_common_def by (simp add: sorted_wrt_rev)
qed

lemma most_common_same_items:
  "set (most_common c) = set c" "length (most_common c) = length c"
  by (simp_all add: most_common_def)

subsection \<open>C8: the CSV of the country counts\<close>

text \<open>
  Claim C8. Whenever \<open>example_3_optimized.main\<close> writes its CSV (it does so for every
  non-empty counter), the file is the header row \<open>country_code, event_count\<close> followed by
  one row of exactly two cells per counted country, its code and its count, the rows
  being the counter's items in an order in which no row has a smaller count than the row
  after it.
\<close>

theorem csv_two_columns_descending:
  assumes "country_counts \<noteq> []"
  shows "\<exists>items. save_to_csv country_counts
             = Some ([Text ''country_code'', Text ''event_count'']
                     # map (\<lambda>(country, count). [Text country, Number count]) items)
           \<and> set items = set country_counts \<and> length items = length country_counts
           \<and> (\<forall>i. Suc i < length items \<longrightarrow> snd (items ! Suc i) \<le> snd (items ! i))"
proof (intro exI[of _ "most_common country_counts"] conjI allI impI)
  show "save_to_csv country_counts
             = Some ([Text ''country_code'', Text ''event_count'']
                     # map (\<lambda>(country, count). [Text country, Number count])
                         (most_common country_counts))"
    using assms by (simp add: save_to_csv_def)
  show "set (most_common country_counts) = set country_counts"
    "length (most_common country_counts) = length country_counts"
    by (rule most_common_same_items)+
  show "snd (most_common country_counts ! Suc i) \<le> snd (most_common country_counts ! i)"
    if "Suc i < length (most_common country_counts)" for i
    using sorted_wrt_nth_less[OF most_common_descending, of i "Suc i" country_counts] that
    by simp
qed

text \<open>The hypothesis of C8 holds for a counter of three countries.\<close>

theorem csv_two_columns_descending_witness:
  "[(''MX'', 1), (''US'', 2), (''CA'', 1)] \<noteq> ([] :: counter)
   \<and> (\<exists>items. save_to_csv [(''MX'', 1), (''US'', 2), (''CA'', 1)]
             = Some ([Text ''country_code'', Text ''event_count'']
                     # map (\<lambda>(country, count). [Text country, Number count]) items)
           \<and> set items = set [(''MX'', 1), (''US'', 2), (''CA'', 1)]
           \<and> length items = length [(''MX'', 1 :: nat), (''US'', 2), (''CA'', 1)]
           \<and> (\<forall>i. Suc i < length items \<longrightarrow> snd (items ! Suc i) \<le> snd (items ! i)))"
proof -
  have h: "[(''MX'', 1), (''US'', 2), (''CA'', 1)] \<noteq> ([] :: counter)" by simp
  from csv_two_columns_descending[OF h] h show ?thesis by (intro conjI) blast+
qed

subsection \<open>A run of \<open>example_5\<close> with data in one bin\<close>

lemma str_int_years:
  "str_int 1800 = ''1800''" "str_int 1849 = ''1849''" "str_int 1850 = ''1850''"
  "str_int 1899 = ''1899''" "str_int 1900 = ''1900''" "str_int 1949 = ''1949''"
  "str_int 1950 = ''1950''" "str_int 1999 = ''1999''" "str_int 2000 = ''2000''"
  by (simp_all add: str_defs)

lemma bins_2026:
  "example_5_generate_time_bins 63929384430 START_YEAR INTERVAL_YEARS
     = Some [mk_dt_bin 1800 1849, mk_dt_bin 1850 1899, mk_dt_bin 1900 1949, mk_dt_bin 1950 1999,
             mk_dt_bin 2000 2026]"
  unfolding example_5_generate_time_bins_def dt_year_run1 START_YEAR_def INTERVAL_YEARS_def
  by (simp add: example_5_while.simps)

lemma labels_2026:
  "map db_label [mk_dt_bin 1800 1849, mk_dt_bin 1850 1899, mk_dt_bin 1900 1949,
                 mk_dt_bin 1950 1999, mk_dt_bin 2000 2026]
   = [''1800-1849'', ''1850-1899'', ''1900-1949'', ''1950-1999'', ''2000-2026'']"
  by (simp add: mk_dt_bin_def str_int_years str_int_fields)

lemma x_events_listed: "get_hazard_collections one_bin_only = Some [''x-events'']"
proof -
  have p: "py_in ''-events'' ''x-events''" unfolding py_in_def by code_simp
  have "listing_while one_bin_only 0 (Some (BASE_URL @ ''/collections?limit=100'')) []
          = Some (Some [\<lparr>ce_id = Some ''x-events'', ce_roles = []\<rparr>])"
    by (subst listing_while.simps, subst listing_while.simps)
       (simp add: one_bin_only_def next_href_def BASE_URL_def)
  with p show ?thesis by (simp add: get_hazard_collections_def)
qed

lemmas one_bin_defs = one_bin_only_def hazard_items_url_def mk_dt_bin_def str_int_years
  str_int_fields BASE_URL_def page_of_def feature_of_def no_effects_def next_href_def
  count_hazard_codes_def counter_update_def

lemma x_events_fetched:
  "fetch_counts_for_bin one_bin_only ''x-events'' (mk_dt_bin 1800 1849)
     = Some \<lparr>br_collection = ''x-events'', br_label = ''1800-1849'', br_counts = [],
             br_items_fetched = 0,
             br_effects = \<lparr>fx_requested = [hazard_items_url ''x-events'' (mk_dt_bin 1800 1849)],
                           fx_slept = [], fx_error_file = []\<rparr>\<rparr>"
  "fetch_counts_for_bin one_bin_only ''x-events'' (mk_dt_bin 1850 1899)
     = Some \<lparr>br_collection = ''x-events'', br_label = ''1850-1899'', br_counts = [],
             br_items_fetched = 0,
             br_effects = \<lparr>fx_requested = [hazard_items_url ''x-events'' (mk_dt_bin 1850 1899)],
                           fx_slept = [], fx_error_file = []\<rparr>\<rparr>"
  "fetch_counts_for_bin one_bin_only ''x-events'' (mk_dt_bin 1900 1949)
     = Some \<lparr>br_collection = ''x-events'', br_label = ''1900-1949'', br_counts = [],
             br_items_fetched = 0,
             br_effects = \<lparr>fx_requested = [hazard_items_url ''x-events'' (mk_dt_bin 1900 1949)],
                           fx_slept = [], fx_error_file = []\<rparr>\<rparr>"
  "fetch_counts_for_bin one_bin_only ''x-events'' (mk_dt_bin 1950 1999)
     = Some \<lparr>br_collection = ''x-events'', br_label = ''1950-1999'', br_counts = [(''FL'', 1)],
             br_items_fetched = 1,
             br_effects = \<lparr>fx_requested = [hazard_items_url ''x-events'' (mk_dt_bin 1950 1999)],
                           fx_slept = [], fx_error_file = []\<rparr>\<rparr>"
  "fetch_counts_for_bin one_bin_only ''x-events'' (mk_dt_bin 2000 2026)
     = Some \<lparr>br_collection = ''x-events'', br_label = ''2000-2026'', br_counts = [],
             br_items_fetched = 0,
             br_effects = \<lparr>fx_requested = [hazard_items_url ''x-events'' (mk_dt_bin 2000 2026)],
                           fx_slept = [], fx_error_file = []\<rparr>\<rparr>"
  unfolding fetch_counts_for_bin_def
  by ((subst fetch_counts_while.simps, simp add: one_bin_defs fetch_counts_while_done)+)

lemma x_events_title: "\<not> invalid_title ''x-events''" "titles_kept [''x-events'']"
  by (simp_all add: invalid_title_def INVALID_TITLE_CHARS_def titles_kept_def ascii_def lower_def
      lower_char_def)

lemma one_bin_only_run:
  "map_option run_output (example_5_main one_bin_only 63929384430 [0, 1, 2, 3, 4])
     = Some (Workbook [\<lparr>sh_name = ''x-events'', sh_index = [''FL''],
                        sh_columns = [''1950-1999''], sh_cells = [[1]]\<rparr>])"
  by (simp add: example_5_main_def x_events_listed bins_2026 all_tasks_def x_events_fetched
      rows_of_def example_5_export_def example_5_sheet_def sorted_unique_def unique_def
      pivot_cell_def write_sheets_def x_events_title)

subsection \<open>C3: a bin without data is no column of \<open>example_5\<close>\<close>

text \<open>
  Claim C3, at \<open>example_5.main\<close>. The script means to do what the claim says: it reindexes
  every pivot table under the comment \<open>Ensure all time periods are present as columns in
  the correct order\<close>. But the columns it reindexes to are the periods of the result
  records, \<open>sorted(df_long['time_period'].unique())\<close>, and a task whose bin has no item
  adds no record (\<open>if counts:\<close>); \<open>count_events_by_year\<close> stores the count of such a
  bin, 0, under the comment \<open>Store result even if count is 0 to ensure all periods are
  represented\<close>.

  So in a run of \<open>example_5\<close> on 2026-11-04 against a catalog whose one collection,
  \<open>x-events\<close>, has a single item, with hazard code FL, in the years 1950 to 1999, the time
  bins are the five from \<open>1800-1849\<close> to \<open>2000-2026\<close>, and the sheet of the collection
  has the single column \<open>1950-1999\<close>: the four bins without data are not columns of
  zeros, they are absent.
\<close>

theorem bin_without_data_has_no_column:
  "map_option (map db_label) (example_5_generate_time_bins 63929384430 START_YEAR INTERVAL_YEARS)
     = Some [''1800-1849'', ''1850-1899'', ''1900-1949'', ''1950-1999'', ''2000-2026'']
   \<and> map_option run_output (example_5_main one_bin_only 63929384430 [0, 1, 2, 3, 4])
     = Some (Workbook [\<lparr>sh_name = ''x-events'', sh_index = [''FL''],
                        sh_columns = [''1950-1999''], sh_cells = [[1]]\<rparr>])"
proof
  show "map_option (map db_label)
          (example_5_generate_time_bins 63929384430 START_YEAR INTERVAL_YEARS)
     = Some [''1800-1849'', ''1850-1899'', ''1900-1949'', ''1950-1999'', ''2000-2026'']"
    unfolding bins_2026 option.map labels_2026 ..
  show "map_option run_output (example_5_main one_bin_only 63929384430 [0, 1, 2, 3, 4])
     = Some (Workbook [\<lparr>sh_name = ''x-events'', sh_index = [''FL''],
                        sh_columns = [''1950-1999''], sh_cells = [[1]]\<rparr>])"
    by (rule one_bin_only_run)
qed

subsection \<open>Runs\<close>

lemma listing_fails_by_year:
  "sess 0 (BASE_URL @ ''/collections'') = RequestException e \<Longrightarrow>
   by_year_main sess now completed = Inr aborted"
  by (simp add: by_year_main_def get_event_collections_def)

lemma listing_fails_per_collection:
  "sess 0 (BASE_URL @ ''/collections'') = RequestException e \<Longrightarrow>
   per_collection_main sess completed = Some (Inr aborted)"
  by (simp add: per_collection_main_def get_all_collections_def)

lemma listing_fails_example_5:
  "sess 0 (BASE_URL @ ''/collections?limit=100'') = RequestException e \<Longrightarrow>
   example_5_main sess now completed = Some aborted"
proof -
  assume a: "sess 0 (BASE_URL @ ''/collections?limit=100'') = RequestException e"
  have "listing_while sess 0 (Some (BASE_URL @ ''/collections?limit=100'')) [] = Some None"
    using a by (subst listing_while.simps) (simp add: BASE_URL_def)
  then show ?thesis by (simp add: example_5_main_def get_hazard_collections_def)
qed

subsection \<open>A run in which every task fails\<close>

lemma str_int_early_years:
  "str_int 1600 = ''1600''" "str_int 1699 = ''1699''" "str_int 1700 = ''1700''"
  "str_int 1799 = ''1799''"
  by (simp_all add: str_defs)

lemma by_year_bins_2026:
  "by_year_generate_time_bins 63929384430
     = [mk_year_bin 1600 1699, mk_year_bin 1700 1799, mk_year_bin 1800 1849,
        mk_year_bin 1850 1899, mk_year_bin 1900 1949, mk_year_bin 1950 1999,
        mk_year_bin 2000 2026]"
  unfolding by_year_generate_time_bins_def dt_year_run1
  by (simp add: range_step.simps by_year_while.simps)

lemma counts_down_listed: "get_event_collections counts_down = Inr [''x-events'']"
  by (simp add: get_event_collections_def counts_down_def x_events_listing_def)

lemma counts_down_row:
  "ct_row (fetch_count_for_bin counts_down c b)
     = \<lparr>row_collection = c, row_time_period = yb_label b, row_event_count = Error_count\<rparr>"
  by (simp add: fetch_count_for_bin_def counts_down_def count_items_url_def Let_def)

lemma labels_by_year_2026:
  "map yb_label [mk_year_bin 1600 1699, mk_year_bin 1700 1799, mk_year_bin 1800 1849,
        mk_year_bin 1850 1899, mk_year_bin 1900 1949, mk_year_bin 1950 1999,
        mk_year_bin 2000 2026]
   = [''1600-1699'', ''1700-1799'', ''1800-1849'', ''1850-1899'', ''1900-1949'', ''1950-1999'',
      ''2000-2026'']"
  by (simp add: mk_year_bin_def str_int_early_years str_int_years str_int_fields)

lemma bins_down_listed: "get_hazard_collections bins_down = Some [''x-events'']"
proof -
  have p: "py_in ''-events'' ''x-events''" unfolding py_in_def by code_simp
  have "listing_while bins_down 0 (Some (BASE_URL @ ''/collections?limit=100'')) []
          = Some (Some [\<lparr>ce_id = Some ''x-events'', ce_roles = [''event'']\<rparr>])"
    by (subst listing_while.simps, subst listing_while.simps)
       (simp add: bins_down_def x_events_listing_def next_href_def BASE_URL_def)
  with p show ?thesis by (simp add: get_hazard_collections_def)
qed

lemma bins_down_fetched:
  "fetch_counts_for_bin bins_down c b
     = Some \<lparr>br_collection = c, br_label = db_label b, br_counts = [], br_items_fetched = 0,
             br_effects = \<lparr>fx_requested = [hazard_items_url c b], fx_slept = [],
                           fx_error_file = []\<rparr>\<rparr>"
  unfolding fetch_counts_for_bin_def
  by (subst fetch_counts_while.simps)
     (simp add: bins_down_def hazard_items_url_def no_effects_def)

subsection \<open>C7: with every task failed, \<open>count_events_by_year\<close> ends in the writer's error\<close>

text \<open>
  Claim C7, at a run in which the listing succeeds and the request of every task fails, on
  2026-11-04 with the one collection \<open>x-events\<close>.

  \<open>count_events_by_year.main\<close> starts the pool on the seven tasks and collects their
  seven records, all marked \<open>"Error"\<close>. Its guard \<open>if not all_results\<close> does not hold,
  the filter on \<open>"Error"\<close> then leaves no row, the \<open>ExcelWriter\<close> block writes no sheet,
  and \<open>main\<close> ends with the \<open>IndexError\<close> that openpyxl raises on saving a workbook
  without a sheet: the failed tasks do not end the batch, but no output is written from
  its results.

  \<open>example_5.main\<close> in the same situation has no records, prints that no hazard data was
  found and returns without writing.
\<close>

theorem every_task_failed_writer_fails:
  "by_year_main counts_down 63929384430 [0, 1, 2, 3, 4, 5, 6]
     = Inr \<lparr>run_tasks = all_tasks [''x-events'']
                          [mk_year_bin 1600 1699, mk_year_bin 1700 1799, mk_year_bin 1800 1849,
                           mk_year_bin 1850 1899, mk_year_bin 1900 1949, mk_year_bin 1950 1999,
                           mk_year_bin 2000 2026],
            run_pool_started = True,
            run_results =
              [\<lparr>row_collection = ''x-events'', row_time_period = ''1600-1699'', row_event_count = Error_count\<rparr>,
               \<lparr>row_collection = ''x-events'', row_time_period = ''1700-1799'', row_event_count = Error_count\<rparr>,
               \<lparr>row_collection = ''x-events'', row_time_period = ''1800-1849'', row_event_count = Error_count\<rparr>,
               \<lparr>row_collection = ''x-events'', row_time_period = ''1850-1899'', row_event_count = Error_count\<rparr>,
               \<lparr>row_collection = ''x-events'', row_time_period = ''1900-1949'', row_event_count = Error_count\<rparr>,
               \<lparr>row_collection = ''x-events'', row_time_period = ''1950-1999'', row_event_count = Error_count\<rparr>,
               \<lparr>row_collection = ''x-events'', row_time_period = ''2000-2026'', row_event_count = Error_count\<rparr>],
            run_output = Writer_failed\<rparr>
   \<and> example_5_main bins_down 63929384430 [0, 1, 2, 3, 4]
     = Some \<lparr>run_tasks = all_tasks [''x-events'']
                           [mk_dt_bin 1800 1849, mk_dt_bin 1850 1899, mk_dt_bin 1900 1949,
                            mk_dt_bin 1950 1999, mk_dt_bin 2000 2026],
             run_pool_started = True, run_results = [], run_output = No_file\<rparr>"
proof
  have l: "yb_label (mk_year_bin 1600 1699) = ''1600-1699''"
    "yb_label (mk_year_bin 1700 1799) = ''1700-1799''"
    "yb_label (mk_year_bin 1800 1849) = ''1800-1849''"
    "yb_label (mk_year_bin 1850 1899) = ''1850-1899''"
    "yb_label (mk_year_bin 1900 1949) = ''1900-1949''"
    "yb_label (mk_year_bin 1950 1999) = ''1950-1999''"
    "yb_label (mk_year_bin 2000 2026) = ''2000-2026''"
    using labels_by_year_2026 by simp_all
  show "by_year_main counts_down 63929384430 [0, 1, 2, 3, 4, 5, 6]
     = Inr \<lparr>run_tasks = all_tasks [''x-events'']
                          [mk_year_bin 1600 1699, mk_year_bin 1700 1799, mk_year_bin 1800 1849,
                           mk_year_bin 1850 1899, mk_year_bin 1900 1949, mk_year_bin 1950 1999,
                           mk_year_bin 2000 2026],
            run_pool_started = True,
            run_results =
              [\<lparr>row_collection = ''x-events'', row_time_period = ''1600-1699'', row_event_count = Error_count\<rparr>,
               \<lparr>row_collection = ''x-events'', row_time_period = ''1700-1799'', row_event_count = Error_count\<rparr>,
               \<lparr>row_collection = ''x-events'', row_time_period = ''1800-1849'', row_event_count = Error_count\<rparr>,
               \<lparr>row_collection = ''x-events'', row_time_period = ''1850-1899'', row_event_count = Error_count\<rparr>,
               \<lparr>row_collection = ''x-events'', row_time_period = ''1900-1949'', row_event_count = Error_count\<rparr>,
               \<lparr>row_collection = ''x-events'', row_time_period = ''1950-1999'', row_event_count = Error_count\<rparr>,
               \<lparr>row_collection = ''x-events'', row_time_period = ''2000-2026'', row_event_count = Error_count\<rparr>],
            run_output = Writer_failed\<rparr>"
    by (simp add: by_year_main_def counts_down_listed by_year_bins_2026 all_tasks_def
        counts_down_row l by_year_export_def sorted_unique_def write_sheets_def)
  show "example_5_main bins_down 63929384430 [0, 1, 2, 3, 4]
     = Some \<lparr>run_tasks = all_tasks [''x-events'']
                           [mk_dt_bin 1800 1849, mk_dt_bin 1850 1899, mk_dt_bin 1900 1949,
                            mk_dt_bin 1950 1999, mk_dt_bin 2000 2026],
             run_pool_started = True, run_results = [], run_output = No_file\<rparr>"
    by (simp add: example_5_main_def bins_down_listed bins_2026 all_tasks_def bins_down_fetched
        rows_of_def example_5_export_def)
qed

end
